theory Spec2Isabelle
  imports Main "HOL-Library.Sublist"
begin

section \<open>Python strings\<close>

text \<open>
  A Python \<^verbatim>\<open>str\<close> is a sequence of Unicode code points; it is modelled as a list of
  natural numbers, one per code point. \<open>ascii\<close> turns an Isabelle string literal into
  such a list, so that \<open>ascii ''A: B''\<close> stands for the Python literal \<^verbatim>\<open>"A: B"\<close>.
\<close>

type_synonym str = "nat list"

definition ascii :: "string \<Rightarrow> str" where
  "ascii = map of_char"

text \<open>
  \<^verbatim>\<open>str.isspace\<close> on one code point, which is also what \<^verbatim>\<open>\s\<close> of a \<^verbatim>\<open>str\<close> pattern
  matches, what \<^verbatim>\<open>str.strip()\<close> removes and where \<^verbatim>\<open>str.split()\<close> cuts:
  U+0009..U+000D, U+001C..U+0020, U+0085, U+00A0, U+1680, U+2000..U+200A, U+2028,
  U+2029, U+202F, U+205F and U+3000.
\<close>

definition is_space :: "nat \<Rightarrow> bool" where
  "is_space c \<longleftrightarrow>
     (9 \<le> c \<and> c \<le> 13) \<or> (28 \<le> c \<and> c \<le> 32) \<or> c = 133 \<or> c = 160 \<or> c = 5760 \<or>
     (8192 \<le> c \<and> c \<le> 8202) \<or> c = 8232 \<or> c = 8233 \<or> c = 8239 \<or> c = 8287 \<or> c = 12288"

text \<open>\<^verbatim>\<open>s.strip()\<close>: leading and trailing whitespace removed.\<close>

definition py_strip :: "str \<Rightarrow> str" where
  "py_strip s = rev (dropWhile is_space (rev (dropWhile is_space s)))"

text \<open>
  \<^verbatim>\<open>s.find(sub)\<close>: the least index where \<open>sub\<close> occurs, \<open>None\<close> for Python's \<open>-1\<close>;
  \<^verbatim>\<open>sub in s\<close> is \<open>py_in sub s\<close>.
\<close>

fun py_find :: "str \<Rightarrow> str \<Rightarrow> nat option" where
  "py_find sub [] = (if sub = [] then Some 0 else None)"
| "py_find sub (x # xs) =
     (if prefix sub (x # xs) then Some 0 else map_option Suc (py_find sub xs))"

definition py_in :: "str \<Rightarrow> str \<Rightarrow> bool" where
  "py_in sub s \<longleftrightarrow> py_find sub s \<noteq> None"

text \<open>
  \<^verbatim>\<open>s.split(sep, 1)\<close> for a non-empty separator: cut at the first occurrence of
  \<open>sep\<close>, or the whole string as the only part when there is none.
\<close>

definition py_split1 :: "str \<Rightarrow> str \<Rightarrow> str list" where
  "py_split1 sep s =
     (case py_find sep s of
        None \<Rightarrow> [s]
      | Some i \<Rightarrow> [take i s, drop (i + length sep) s])"

text \<open>
  \<^verbatim>\<open>s.replace(old, new)\<close> for a non-empty \<open>old\<close>: every occurrence of \<open>old\<close>, found
  from the left and not overlapping an earlier one, becomes \<open>new\<close>. The counter says
  how many code points of an occurrence already replaced are still to be skipped.
\<close>

fun replace_from :: "str \<Rightarrow> str \<Rightarrow> nat \<Rightarrow> str \<Rightarrow> str" where
  "replace_from old new k [] = []"
| "replace_from old new (Suc k) (x # xs) = replace_from old new k xs"
| "replace_from old new 0 (x # xs) =
     (if prefix old (x # xs) then new @ replace_from old new (length old - 1) xs
      else x # replace_from old new 0 xs)"

definition py_replace :: "str \<Rightarrow> str \<Rightarrow> str \<Rightarrow> str" where
  "py_replace old new s = replace_from old new 0 s"

text \<open>
  \<^verbatim>\<open>s.lower()\<close>, as far as the program looks at it: the only use is the test
  \<^verbatim>\<open>' by ' in cleaned.lower()\<close>, and the only code points whose lower case contains a
  space, \<^verbatim>\<open>b\<close> or \<^verbatim>\<open>y\<close> are the space, \<^verbatim>\<open>b\<close>, \<^verbatim>\<open>B\<close>, \<^verbatim>\<open>y\<close> and \<^verbatim>\<open>Y\<close>
  themselves. So the ASCII letters are lowered and every other code point is kept.
\<close>

definition lower_cp :: "nat \<Rightarrow> nat" where
  "lower_cp c = (if 65 \<le> c \<and> c \<le> 90 then c + 32 else c)"

definition py_lower :: "str \<Rightarrow> str" where
  "py_lower s = map lower_cp s"

section \<open>Regular expressions of the program\<close>

text \<open>
  Python's \<^verbatim>\<open>re\<close> matches by backtracking. A pattern element is modelled as a function
  of its continuation \<open>k\<close> (the rest of the pattern) and the rest of the subject: it tries
  its alternatives in the order the engine does, and the first one that lets \<open>k\<close> succeed
  gives the result.

  \<open>lit p\<close> is a literal character of a pattern compiled with \<^verbatim>\<open>re.IGNORECASE\<close>. For an ASCII
  letter it matches both cases, and the four code points whose simple case mapping meets
  an ASCII letter: U+0130 and U+0131 for \<^verbatim>\<open>i\<close>, U+017F for \<^verbatim>\<open>s\<close>, U+212A for \<^verbatim>\<open>k\<close>.
\<close>

definition ci_eq :: "nat \<Rightarrow> nat \<Rightarrow> bool" where
  "ci_eq p c \<longleftrightarrow>
     lower_cp c = lower_cp p \<or>
     (lower_cp p = 105 \<and> (c = 304 \<or> c = 305)) \<or>
     (lower_cp p = 115 \<and> c = 383) \<or>
     (lower_cp p = 107 \<and> c = 8490)"

fun lit :: "nat \<Rightarrow> (str \<Rightarrow> 'a option) \<Rightarrow> str \<Rightarrow> 'a option" where
  "lit p k [] = None"
| "lit p k (x # xs) = (if ci_eq p x then k xs else None)"

fun lits :: "str \<Rightarrow> (str \<Rightarrow> 'a option) \<Rightarrow> str \<Rightarrow> 'a option" where
  "lits [] k = k"
| "lits (p # ps) k = lit p (lits ps k)"

text \<open>\<^verbatim>\<open>\s*\<close>, greedy: as much whitespace as possible first, then one less, and so on.\<close>

fun ws_star :: "(str \<Rightarrow> 'a option) \<Rightarrow> str \<Rightarrow> 'a option" where
  "ws_star k [] = k []"
| "ws_star k (x # xs) =
     (if is_space x
      then (case ws_star k xs of Some r \<Rightarrow> Some r | None \<Rightarrow> k (x # xs))
      else k (x # xs))"

text \<open>\<^verbatim>\<open>\s+\<close>, greedy: one whitespace character, then \<^verbatim>\<open>\s*\<close>.\<close>

fun ws_plus :: "(str \<Rightarrow> 'a option) \<Rightarrow> str \<Rightarrow> 'a option" where
  "ws_plus k [] = None"
| "ws_plus k (x # xs) = (if is_space x then ws_star k xs else None)"

text \<open>
  \<^verbatim>\<open>.*?\<close> and \<^verbatim>\<open>.+?\<close>, lazy: as few characters as possible first. Without
  \<^verbatim>\<open>re.DOTALL\<close> the dot matches anything but a line feed.
\<close>

fun dot_star_lazy :: "(str \<Rightarrow> 'a option) \<Rightarrow> str \<Rightarrow> 'a option" where
  "dot_star_lazy k [] = k []"
| "dot_star_lazy k (x # xs) =
     (case k (x # xs) of
        Some r \<Rightarrow> Some r
      | None \<Rightarrow> (if x \<noteq> 10 then dot_star_lazy k xs else None))"

fun dot_plus_lazy :: "(str \<Rightarrow> 'a option) \<Rightarrow> str \<Rightarrow> 'a option" where
  "dot_plus_lazy k [] = None"
| "dot_plus_lazy k (x # xs) = (if x \<noteq> 10 then dot_star_lazy k xs else None)"

text \<open>
  \<^verbatim>\<open>$\<close> without \<^verbatim>\<open>re.MULTILINE\<close>: the end of the subject, or just before a line feed
  that ends it.
\<close>

definition at_dollar :: "str \<Rightarrow> bool" where
  "at_dollar s \<longleftrightarrow> s = [] \<or> s = [10]"

definition dollar :: "str \<Rightarrow> str option" where
  "dollar s = (if at_dollar s then Some s else None)"

text \<open>
  \<^verbatim>\<open>re.sub(pattern, '', s)\<close>. The compiled pattern \<open>m\<close> maps the subject from some position
  on to what is left of it behind the match there, or to \<open>None\<close>. The scan goes from left
  to right: a match is dropped and the scan goes on behind it, a character where nothing
  matches is kept. The patterns of this program never match the empty string; the model
  keeps the character and moves on there.
\<close>

function re_sub :: "(str \<Rightarrow> str option) \<Rightarrow> str \<Rightarrow> str" where
  "re_sub m [] = []"
| "re_sub m (x # xs) =
     (case m (x # xs) of
        None \<Rightarrow> x # re_sub m xs
      | Some r \<Rightarrow>
          (if length r < Suc (length xs)
           then re_sub m (drop (Suc (length xs) - length r) (x # xs))
           else x # re_sub m xs))"
  by pat_completeness auto
termination
  by (relation "measure (\<lambda>(m, s). length s)") auto

section \<open>Title parsing\<close>

text \<open>
  The loop over \<^verbatim>\<open>REMOVE_PATTERNS\<close>: each pattern is applied to the result of the
  one before.
\<close>

fun remove_patterns :: "(str \<Rightarrow> str option) list \<Rightarrow> str \<Rightarrow> str" where
  "remove_patterns [] cleaned = cleaned"
| "remove_patterns (pattern # patterns) cleaned =
     remove_patterns patterns (re_sub pattern cleaned)"

text \<open>\<^verbatim>\<open>AlbumFetcher.REMOVE_PATTERNS\<close>.\<close>

definition REMOVE_PATTERNS :: "(str \<Rightarrow> str option) list" where
  "REMOVE_PATTERNS =
     [ws_star (lits (ascii ''album review'') (ws_star dollar)),
      ws_star (lits (ascii ''concert review'') (ws_star dollar)),
      ws_star (lits (ascii ''premiere'') (ws_star dollar)),
      ws_star (lits (ascii ''review'') (ws_star dollar))]"

text \<open>\<^verbatim>\<open>AlbumFetcher.clean_title\<close>. The colon is code point 58.\<close>

definition clean_title :: "str \<Rightarrow> (str \<times> str) option" where
  "clean_title title =
     (let cleaned = remove_patterns REMOVE_PATTERNS title;
          cleaned = py_strip cleaned
      in if \<not> py_in [58] cleaned then None
         else
           let parts = py_split1 [58] cleaned
           in if length parts \<noteq> 2 then None
              else
                let artist = py_strip (parts ! 0);
                    album = py_strip (parts ! 1)
                in if artist = [] \<or> album = [] then None
                   else Some (artist, album))"

text \<open>\<^verbatim>\<open>JazzProfilesFetcher.REMOVE_PATTERNS\<close>.\<close>

definition JP_REMOVE_PATTERNS :: "(str \<Rightarrow> str option) list" where
  "JP_REMOVE_PATTERNS =
     [ws_star (lits (ascii ''album review'') (ws_star dollar)),
      ws_star (lits (ascii ''review'') (ws_star dollar)),
      ws_star (lit 45 (ws_star (lits (ascii ''album'') (ws_star dollar)))),
      ws_star (lits (ascii ''[album]'') (ws_star dollar))]"

text \<open>
  The pattern \<^verbatim>\<open>^(.+?)\s+by\s+(.+?)$\<close> under \<^verbatim>\<open>re.search\<close> with \<^verbatim>\<open>re.IGNORECASE\<close>:
  \<^verbatim>\<open>^\<close> lets a match start at the beginning of the subject only. The result is the
  pair of the two groups.
\<close>

definition by_regex :: "str \<Rightarrow> (str \<times> str) option" where
  "by_regex s =
     dot_plus_lazy (\<lambda>r1.
       ws_plus (lit 98 (lit 121 (ws_plus (\<lambda>r2.
         dot_plus_lazy (\<lambda>r3.
           if at_dollar r3
           then Some (take (length s - length r1) s, take (length r2 - length r3) r2)
           else None) r2)))) r1) s"

text \<open>
  \<^verbatim>\<open>JazzProfilesFetcher.clean_title\<close>: the three attempts in the order of the source, each
  falling through to the next when it does not return.
\<close>

definition jp_try_by :: "str \<Rightarrow> (str \<times> str) option" where
  "jp_try_by cleaned =
     (if py_in (ascii '' by '') (py_lower cleaned)
      then (case by_regex cleaned of
              Some (g1, g2) \<Rightarrow>
                (let album = py_strip g1; artist = py_strip g2
                 in if artist \<noteq> [] \<and> album \<noteq> [] then Some (artist, album) else None)
            | None \<Rightarrow> None)
      else None)"

definition jp_try_hyphen :: "str \<Rightarrow> (str \<times> str) option" where
  "jp_try_hyphen cleaned =
     (if py_in (ascii '' - '') cleaned
      then (let parts = py_split1 (ascii '' - '') cleaned
            in if length parts = 2
               then (let artist = py_strip (parts ! 0); album = py_strip (parts ! 1)
                     in if artist \<noteq> [] \<and> album \<noteq> [] then Some (artist, album)
                        else jp_try_by cleaned)
               else jp_try_by cleaned)
      else jp_try_by cleaned)"

definition jp_clean_title :: "str \<Rightarrow> (str \<times> str) option" where
  "jp_clean_title title =
     (let cleaned = remove_patterns JP_REMOVE_PATTERNS title;
          cleaned = py_strip cleaned
      in if py_in [58] cleaned
         then (let parts = py_split1 [58] cleaned
               in if length parts = 2
                  then (let artist = py_strip (parts ! 0); album = py_strip (parts ! 1)
                        in if artist \<noteq> [] \<and> album \<noteq> [] then Some (artist, album)
                           else jp_try_hyphen cleaned)
                  else jp_try_hyphen cleaned)
         else jp_try_hyphen cleaned)"

section \<open>More string operations\<close>

text \<open>
  \<^verbatim>\<open>s.split(sep)\<close> for a non-empty separator: cut at every occurrence of \<open>sep\<close>, found
  from the left. (Python refuses an empty separator; the program never passes one.)
\<close>

function py_split :: "str \<Rightarrow> str \<Rightarrow> str list" where
  "py_split sep s =
     (if sep = [] then [s]
      else (case py_find sep s of
              None \<Rightarrow> [s]
            | Some i \<Rightarrow> take i s # py_split sep (drop (i + length sep) s)))"
  by pat_completeness auto
termination
proof (relation "measure (\<lambda>(sep, s). length s)")
  show "wf (measure (\<lambda>(sep, s). length s))" by simp
next
  fix sep s :: str and i
  assume "sep \<noteq> []" and "py_find sep s = Some i"
  then have "s \<noteq> []" by (cases s) auto
  with \<open>sep \<noteq> []\<close> show "((sep, drop (i + length sep) s), (sep, s)) \<in> measure (\<lambda>(sep, s). length s)"
    by (cases sep) auto
qed

declare py_split.simps [simp del]

text \<open>
  \<^verbatim>\<open>s.split()\<close> with no argument: the maximal runs of characters that are not
  whitespace. \<open>cur\<close> is the run being read.
\<close>

fun split_ws_from :: "str \<Rightarrow> str \<Rightarrow> str list" where
  "split_ws_from cur [] = (if cur = [] then [] else [cur])"
| "split_ws_from cur (x # xs) =
     (if is_space x
      then (if cur = [] then split_ws_from [] xs else cur # split_ws_from [] xs)
      else split_ws_from (cur @ [x]) xs)"

definition py_split_ws :: "str \<Rightarrow> str list" where
  "py_split_ws s = split_ws_from [] s"

text \<open>\<^verbatim>\<open>sep.join(parts)\<close>.\<close>

fun py_join :: "str \<Rightarrow> str list \<Rightarrow> str" where
  "py_join sep [] = []"
| "py_join sep [p] = p"
| "py_join sep (p # q # ps) = p @ sep @ py_join sep (q # ps)"

text \<open>\<^verbatim>\<open>d.get(key, default)\<close> on a dictionary, and \<^verbatim>\<open>x or ''\<close> on an optional string.\<close>

definition py_get :: "('k \<rightharpoonup> 'v) \<Rightarrow> 'k \<Rightarrow> 'v \<Rightarrow> 'v" where
  "py_get d key dflt = (case d key of None \<Rightarrow> dflt | Some v \<Rightarrow> v)"

definition or_empty :: "str option \<Rightarrow> str" where
  "or_empty x = (case x of None \<Rightarrow> [] | Some v \<Rightarrow> v)"

text \<open>The truth value of an optional string: \<^verbatim>\<open>None\<close> and \<^verbatim>\<open>''\<close> count as false.\<close>

definition truthy :: "str option \<Rightarrow> bool" where
  "truthy x = (case x of None \<Rightarrow> False | Some v \<Rightarrow> v \<noteq> [])"

section \<open>The two external services\<close>

text \<open>
  What \<^verbatim>\<open>session.get\<close>, \<^verbatim>\<open>raise_for_status\<close> and \<^verbatim>\<open>response.json()\<close> come to:
  a \<^verbatim>\<open>requests.RequestException\<close>, a \<^verbatim>\<open>ValueError\<close> from the decoder, or the decoded
  document. Of the search document the program reads the list \<^verbatim>\<open>results\<close> (empty when
  the key is absent) and of each result its \<^verbatim>\<open>collectionViewUrl\<close>; of the conversion
  document it reads \<^verbatim>\<open>pageUrl\<close>. An absent key is \<open>None\<close>. The documents are taken
  to have the shape the services give them: an object, its \<^verbatim>\<open>results\<close> a list of objects,
  the two URLs strings.
\<close>

datatype 'a response = RequestException | ValueError | Json 'a

text \<open>What the program does to the outside, in the order it does it.\<close>

datatype event = SearchRequest str | Sleep nat | ConvertRequest str

text \<open>
  A feed entry is a dictionary from field names to strings.

  The world the program runs in: what \<^verbatim>\<open>feedparser.parse\<close> delivers (\<open>None\<close> when it
  raises), what the two services answer to a request (which may depend on everything
  the program did before), and what
  \<^verbatim>\<open>datetime.strptime(s, '%a, %d %b %Y %H:%M:%S %z').strftime('%Y-%m-%d')\<close> gives
  (\<open>None\<close> when \<^verbatim>\<open>strptime\<close> raises).
\<close>

type_synonym entry = "str \<rightharpoonup> str"

record world =
  feed_entries :: "entry list option"
  search_api :: "event list \<Rightarrow> str \<Rightarrow> str option list response"
  convert_api :: "event list \<Rightarrow> str \<Rightarrow> str option response"
  strptime_ymd :: "str \<Rightarrow> str option"

text \<open>\<^verbatim>\<open>AlbumFetcher.fetch_rss\<close>.\<close>

definition fetch_rss :: "world \<Rightarrow> entry list" where
  "fetch_rss w = (case feed_entries w of Some entries \<Rightarrow> entries | None \<Rightarrow> [])"

text \<open>
  \<^verbatim>\<open>AlbumFetcher.search_apple_music\<close>: the query is \<^verbatim>\<open>f"{artist} {album}"\<close>; the
  result is the first result's URL when there is one and it is not empty. The second
  component is the trace of events, extended by the request.
\<close>

definition search_apple_music ::
  "world \<Rightarrow> event list \<Rightarrow> str \<Rightarrow> str \<Rightarrow> str option \<times> event list" where
  "search_apple_music w tr artist album =
     (let query = artist @ [32] @ album;
          tr' = tr @ [SearchRequest query]
      in case search_api w tr query of
           Json results \<Rightarrow>
             (case results of
                first_result # _ \<Rightarrow>
                  (case first_result of
                     Some apple_url \<Rightarrow>
                       (if apple_url \<noteq> [] then (Some apple_url, tr') else (None, tr'))
                   | None \<Rightarrow> (None, tr'))
              | [] \<Rightarrow> (None, tr'))
         | RequestException \<Rightarrow> (None, tr')
         | ValueError \<Rightarrow> (None, tr'))"

text \<open>
  \<^verbatim>\<open>AlbumFetcher.convert_url_to_album_link\<close>: six seconds of sleep, the request, and
  the three replacements on a \<^verbatim>\<open>pageUrl\<close> that is there and not empty.
\<close>

definition strip_country :: "str \<Rightarrow> str" where
  "strip_country page_url =
     (let page_url = py_replace (ascii ''/us/i/'') (ascii ''/i/'') page_url;
          page_url = py_replace (ascii ''/uk/i/'') (ascii ''/i/'') page_url;
          page_url = py_replace (ascii ''/ca/i/'') (ascii ''/i/'') page_url
      in page_url)"

definition convert_url_to_album_link ::
  "world \<Rightarrow> event list \<Rightarrow> str \<Rightarrow> str option \<times> event list" where
  "convert_url_to_album_link w tr music_url =
     (let tr1 = tr @ [Sleep 6];
          tr2 = tr1 @ [ConvertRequest music_url]
      in case convert_api w tr1 music_url of
           Json page_url \<Rightarrow>
             (case page_url of
                Some u \<Rightarrow> (if u \<noteq> [] then (Some (strip_country u), tr2) else (None, tr2))
              | None \<Rightarrow> (None, tr2))
         | RequestException \<Rightarrow> (None, tr2)
         | ValueError \<Rightarrow> (None, tr2))"

text \<open>\<^verbatim>\<open>AlbumFetcher.search_album_link\<close>.\<close>

definition search_album_link ::
  "world \<Rightarrow> event list \<Rightarrow> str \<Rightarrow> str \<Rightarrow> str option \<times> event list" where
  "search_album_link w tr artist album =
     (case search_apple_music w tr artist album of
        (apple_url, tr1) \<Rightarrow>
          if truthy apple_url
          then (case convert_url_to_album_link w tr1 (or_empty apple_url) of
                  (album_link, tr2) \<Rightarrow>
                    if truthy album_link then (album_link, tr2) else (None, tr2))
          else (None, tr1))"

section \<open>The feed processor\<close>

text \<open>
  The date of an entry, lines 238 to 246 of \<^verbatim>\<open>process_feed\<close>. When \<^verbatim>\<open>strptime\<close>
  raises, the handler takes the text behind the first comma, and
  \<^verbatim>\<open>pub_date.split(',')[1]\<close> raises \<^verbatim>\<open>IndexError\<close> when there is no comma. Nothing
  catches that exception.
\<close>

datatype py_error = IndexError

definition parse_date :: "(str \<Rightarrow> str option) \<Rightarrow> str \<Rightarrow> py_error + str" where
  "parse_date strptime pub_date =
     (if pub_date \<noteq> []
      then (case strptime pub_date of
              Some ymd \<Rightarrow> Inr ymd
            | None \<Rightarrow>
                (let parts = py_split [44] pub_date
                 in if length parts \<le> 1 then Inl IndexError
                    else Inr (py_join [32] (take 3 (py_split_ws (py_strip (parts ! 1)))))))
      else Inr [])"

text \<open>
  A result is the tuple \<^verbatim>\<open>(artist, album, album_link, apple_music_link, date)\<close>.

  One turn of the loop of \<^verbatim>\<open>process_feed\<close>, on the results and the trace so far.
  \<open>clean\<close> is the \<^verbatim>\<open>clean_title\<close> of the fetcher's class.
\<close>

type_synonym result = "str \<times> str \<times> str \<times> str \<times> str"

definition process_entry ::
  "(str \<Rightarrow> (str \<times> str) option) \<Rightarrow> world \<Rightarrow> result list \<times> event list \<Rightarrow> entry \<Rightarrow>
     py_error + result list \<times> event list" where
  "process_entry clean w st entry =
     (case st of (results, tr) \<Rightarrow>
        (let title = py_get entry (ascii ''title'') [];
             pub_date = py_get entry (ascii ''published'') []
         in case parse_date (strptime_ymd w) pub_date of
              Inl err \<Rightarrow> Inl err
            | Inr date_str \<Rightarrow>
                (case clean title of
                   None \<Rightarrow> Inr (results, tr)
                 | Some (artist, album) \<Rightarrow>
                     (case search_apple_music w tr artist album of
                        (apple_url, tr1) \<Rightarrow>
                          (case (if truthy apple_url
                                 then convert_url_to_album_link w tr1 (or_empty apple_url)
                                 else (None, tr1)) of
                             (album_link, tr2) \<Rightarrow>
                               Inr (results @
                                      [(artist, album, or_empty album_link, or_empty apple_url,
                                        date_str)],
                                    tr2))))))"

fun process_entries ::
  "(str \<Rightarrow> (str \<times> str) option) \<Rightarrow> world \<Rightarrow> result list \<times> event list \<Rightarrow> entry list \<Rightarrow>
     py_error + result list \<times> event list" where
  "process_entries clean w st [] = Inr st"
| "process_entries clean w st (entry # entries) =
     (case process_entry clean w st entry of
        Inl err \<Rightarrow> Inl err
      | Inr st' \<Rightarrow> process_entries clean w st' entries)"

text \<open>\<^verbatim>\<open>process_feed\<close>, started with the trace \<open>tr\<close> of what happened before.\<close>

definition process_feed ::
  "(str \<Rightarrow> (str \<times> str) option) \<Rightarrow> world \<Rightarrow> event list \<Rightarrow>
     py_error + result list \<times> event list" where
  "process_feed clean w tr = process_entries clean w ([], tr) (fetch_rss w)"

section \<open>Markdown output\<close>

text \<open>
  \<^verbatim>\<open>OutputGenerator.generate_markdown\<close>: the text written to the file. The musical
  notes of the heading are U+1F3B6, the dash between artist and album is U+2014.
\<close>

definition markdown_line :: "result \<Rightarrow> str" where
  "markdown_line r =
     (case r of (artist, album, album_link, apple_link, date) \<Rightarrow>
        ascii ''- **'' @ artist @ [32, 8212, 32] @ album @
        ascii ''** [[All]('' @ album_link @ ascii '')] [[Apple]('' @ apple_link @ ascii '')]'' @
        (if date \<noteq> [] then ascii '' _'' @ date @ ascii ''_'' else []) @
        [10])"

definition generate_markdown :: "result list \<Rightarrow> str" where
  "generate_markdown results =
     [35, 35, 32, 127926, 32] @ ascii ''New Jazz Albums'' @ [10, 10] @
     ascii ''_Links: [All Platforms] | [Apple Music]_'' @ [10, 10] @
     (if results = [] then ascii ''No albums found.'' @ [10]
      else concat (map markdown_line results))"

section \<open>CSV output\<close>

text \<open>
  \<^verbatim>\<open>csv.writer(f).writerow(row)\<close> in the default dialect (\<^verbatim>\<open>excel\<close>: delimiter comma,
  quote character \<^verbatim>\<open>"\<close>, doubled inside a quoted field, no escape character, line
  terminator \<^verbatim>\<open>\r\n\<close>, \<^verbatim>\<open>QUOTE_MINIMAL\<close>). A field is quoted when it holds the delimiter,
  the quote character or a character of the line terminator; a row that is one empty field
  is written as \<^verbatim>\<open>""\<close>.
\<close>

definition csv_special :: "nat \<Rightarrow> bool" where
  "csv_special c \<longleftrightarrow> c = 44 \<or> c = 34 \<or> c = 13 \<or> c = 10"

definition csv_body :: "str \<Rightarrow> str" where
  "csv_body field = concat (map (\<lambda>c. if c = 34 then [34, 34] else [c]) field)"

definition csv_field :: "str \<Rightarrow> str" where
  "csv_field field =
     (if list_ex csv_special field then [34] @ csv_body field @ [34] else csv_body field)"

definition writerow :: "str list \<Rightarrow> str" where
  "writerow row =
     (if row = [[]] then [34, 34] else py_join [44] (map csv_field row)) @ [13, 10]"

text \<open>
  The file is opened with \<^verbatim>\<open>encoding='utf-8'\<close> and \<^verbatim>\<open>newline=''\<close>, so that no line end
  is translated. \<^verbatim>\<open>f.write\<close> encodes what it is given: a text that holds a surrogate
  (U+D800 to U+DFFF), which UTF-8 cannot encode, raises \<^verbatim>\<open>UnicodeEncodeError\<close> and is
  not written. (The code points of a Python string are below \<^verbatim>\<open>0x110000\<close>.)
\<close>

datatype write_error = UnicodeEncodeError

definition utf8_encodable :: "nat \<Rightarrow> bool" where
  "utf8_encodable c \<longleftrightarrow> c < 55296 \<or> (57343 < c \<and> c < 1114112)"

definition file_write :: "str \<Rightarrow> str \<Rightarrow> write_error + str" where
  "file_write written s =
     (if list_all utf8_encodable s then Inr (written @ s) else Inl UnicodeEncodeError)"

text \<open>
  \<^verbatim>\<open>OutputGenerator.generate_csv\<close>: the content of the file when the function returns, or
  the exception it ends with. The header row is written first, then one row for each
  record in the order of the list; \<^verbatim>\<open>writerow\<close> hands each row to the file in one
  \<^verbatim>\<open>write\<close>.
\<close>

definition csv_header :: "str list" where
  "csv_header =
     [ascii ''artist'', ascii ''album'', ascii ''album_link'', ascii ''apple_music_link'',
      ascii ''date'']"

definition result_row :: "result \<Rightarrow> str list" where
  "result_row r =
     (case r of (artist, album, album_link, apple_link, date) \<Rightarrow>
        [artist, album, album_link, apple_link, date])"

fun write_rows :: "str \<Rightarrow> str list list \<Rightarrow> write_error + str" where
  "write_rows written [] = Inr written"
| "write_rows written (row # rows) =
     (case file_write written (writerow row) of
        Inl e \<Rightarrow> Inl e
      | Inr written' \<Rightarrow> write_rows written' rows)"

definition generate_csv :: "result list \<Rightarrow> write_error + str" where
  "generate_csv results =
     (case file_write [] (writerow csv_header) of
        Inl e \<Rightarrow> Inl e
      | Inr written \<Rightarrow> write_rows written (map result_row results))"

section \<open>Reading CSV back\<close>

text \<open>
  The lines a text file opened with \<^verbatim>\<open>newline=''\<close> is iterated by: a line ends behind
  \<^verbatim>\<open>\n\<close>, behind \<^verbatim>\<open>\r\n\<close> or behind a \<^verbatim>\<open>\r\<close> that no \<^verbatim>\<open>\n\<close> follows, and keeps its
  ending. \<open>cur\<close> is the line being read.
\<close>

fun lines_from :: "str \<Rightarrow> str \<Rightarrow> str list" where
  "lines_from cur [] = (if cur = [] then [] else [cur])"
| "lines_from cur [x] = [cur @ [x]]"
| "lines_from cur (x # y # ys) =
     (if x = 13 \<and> y = 10 then (cur @ [13, 10]) # lines_from [] ys
      else if x = 10 \<or> x = 13 then (cur @ [x]) # lines_from [] (y # ys)
      else lines_from (cur @ [x]) (y # ys))"

definition py_lines :: "str \<Rightarrow> str list" where
  "py_lines text = lines_from [] text"

text \<open>
  \<^verbatim>\<open>csv.reader\<close> in the default dialect, not strict: the state machine of the module.
  The escape states are left out, as the dialect has no escape character, and every
  character of a line is given to the machine as it is (Python 3.11 and later, which no
  longer refuse a NUL). The reader holds the state, the fields of the record read so far
  and the field being read; \<open>limit\<close> is \<^verbatim>\<open>csv.field_size_limit()\<close>, 131072 unless it
  has been set.
\<close>

datatype parser_state =
  START_RECORD | START_FIELD | IN_FIELD | IN_QUOTED_FIELD | QUOTE_IN_QUOTED_FIELD | EAT_CRNL

datatype csv_error = FieldLargerThanLimit | NewlineInUnquotedField

record reader =
  p_state :: parser_state
  p_fields :: "str list"
  p_field :: str

text \<open>What the state machine is given: a character of a line, or the end of the line.\<close>

datatype input = Ch nat | EOL

definition parse_reset :: reader where
  "parse_reset = \<lparr>p_state = START_RECORD, p_fields = [], p_field = []\<rparr>"

definition parse_save_field :: "reader \<Rightarrow> reader" where
  "parse_save_field r = r\<lparr>p_fields := p_fields r @ [p_field r], p_field := []\<rparr>"

definition parse_add_char :: "nat \<Rightarrow> reader \<Rightarrow> nat \<Rightarrow> csv_error + reader" where
  "parse_add_char limit r c =
     (if limit \<le> length (p_field r) then Inl FieldLargerThanLimit
      else Inr (r\<lparr>p_field := p_field r @ [c]\<rparr>))"

text \<open>The state \<^verbatim>\<open>START_FIELD\<close>, which \<^verbatim>\<open>START_RECORD\<close> falls through to.\<close>

definition start_field :: "nat \<Rightarrow> reader \<Rightarrow> input \<Rightarrow> csv_error + reader" where
  "start_field limit r c =
     (case c of
        EOL \<Rightarrow> Inr ((parse_save_field r)\<lparr>p_state := START_RECORD\<rparr>)
      | Ch x \<Rightarrow>
          if x = 10 \<or> x = 13 then Inr ((parse_save_field r)\<lparr>p_state := EAT_CRNL\<rparr>)
          else if x = 34 then Inr (r\<lparr>p_state := IN_QUOTED_FIELD\<rparr>)
          else if x = 44 then Inr (parse_save_field r)
          else (case parse_add_char limit r x of
                  Inl e \<Rightarrow> Inl e
                | Inr r' \<Rightarrow> Inr (r'\<lparr>p_state := IN_FIELD\<rparr>)))"

definition parse_process_char :: "nat \<Rightarrow> reader \<Rightarrow> input \<Rightarrow> csv_error + reader" where
  "parse_process_char limit r c =
     (case p_state r of
        START_RECORD \<Rightarrow>
          (case c of
             EOL \<Rightarrow> Inr r
           | Ch x \<Rightarrow>
               if x = 10 \<or> x = 13 then Inr (r\<lparr>p_state := EAT_CRNL\<rparr>)
               else start_field limit (r\<lparr>p_state := START_FIELD\<rparr>) c)
      | START_FIELD \<Rightarrow> start_field limit r c
      | IN_FIELD \<Rightarrow>
          (case c of
             EOL \<Rightarrow> Inr ((parse_save_field r)\<lparr>p_state := START_RECORD\<rparr>)
           | Ch x \<Rightarrow>
               if x = 10 \<or> x = 13 then Inr ((parse_save_field r)\<lparr>p_state := EAT_CRNL\<rparr>)
               else if x = 44 then Inr ((parse_save_field r)\<lparr>p_state := START_FIELD\<rparr>)
               else parse_add_char limit r x)
      | IN_QUOTED_FIELD \<Rightarrow>
          (case c of
             EOL \<Rightarrow> Inr r
           | Ch x \<Rightarrow>
               if x = 34 then Inr (r\<lparr>p_state := QUOTE_IN_QUOTED_FIELD\<rparr>)
               else parse_add_char limit r x)
      | QUOTE_IN_QUOTED_FIELD \<Rightarrow>
          (case c of
             EOL \<Rightarrow> Inr ((parse_save_field r)\<lparr>p_state := START_RECORD\<rparr>)
           | Ch x \<Rightarrow>
               if x = 34
               then (case parse_add_char limit r x of
                       Inl e \<Rightarrow> Inl e
                     | Inr r' \<Rightarrow> Inr (r'\<lparr>p_state := IN_QUOTED_FIELD\<rparr>))
               else if x = 44 then Inr ((parse_save_field r)\<lparr>p_state := START_FIELD\<rparr>)
               else if x = 10 \<or> x = 13 then Inr ((parse_save_field r)\<lparr>p_state := EAT_CRNL\<rparr>)
               else (case parse_add_char limit r x of
                       Inl e \<Rightarrow> Inl e
                     | Inr r' \<Rightarrow> Inr (r'\<lparr>p_state := IN_FIELD\<rparr>)))
      | EAT_CRNL \<Rightarrow>
          (case c of
             EOL \<Rightarrow> Inr (r\<lparr>p_state := START_RECORD\<rparr>)
           | Ch x \<Rightarrow> if x = 10 \<or> x = 13 then Inr r else Inl NewlineInUnquotedField))"

text \<open>The characters of a line, and then its end, through the state machine.\<close>

fun process_inputs :: "nat \<Rightarrow> reader \<Rightarrow> input list \<Rightarrow> csv_error + reader" where
  "process_inputs limit r [] = Inr r"
| "process_inputs limit r (c # cs) =
     (case parse_process_char limit r c of
        Inl e \<Rightarrow> Inl e
      | Inr r' \<Rightarrow> process_inputs limit r' cs)"

text \<open>
  \<^verbatim>\<open>list(csv.reader(lines))\<close>: a record is complete when the state is \<^verbatim>\<open>START_RECORD\<close>
  at the end of a line, and the next one starts from a reset reader. When the lines run
  out inside a record, what has been read is a last record if a field is begun or the
  reader is inside quotes, and is dropped otherwise.
\<close>

fun read_rows :: "nat \<Rightarrow> reader \<Rightarrow> str list \<Rightarrow> csv_error + str list list" where
  "read_rows limit r [] =
     (if p_field r \<noteq> [] \<or> p_state r = IN_QUOTED_FIELD
      then Inr [p_fields (parse_save_field r)]
      else Inr [])"
| "read_rows limit r (line # lines) =
     (case process_inputs limit r (map Ch line @ [EOL]) of
        Inl e \<Rightarrow> Inl e
      | Inr r' \<Rightarrow>
          if p_state r' = START_RECORD
          then (case read_rows limit parse_reset lines of
                  Inl e \<Rightarrow> Inl e
                | Inr rows \<Rightarrow> Inr (p_fields r' # rows))
          else read_rows limit r' lines)"

definition csv_reader :: "nat \<Rightarrow> str \<Rightarrow> csv_error + str list list" where
  "csv_reader limit text = read_rows limit parse_reset (py_lines text)"

text \<open>
  For the proofs: the inputs the state machine gets for a text, line ends included, read
  off the text directly. \<open>b\<close> says whether the line being read has a character already.
\<close>

fun inputs_of :: "bool \<Rightarrow> str \<Rightarrow> input list" where
  "inputs_of b [] = (if b then [EOL] else [])"
| "inputs_of b [x] = [Ch x, EOL]"
| "inputs_of b (x # y # ys) =
     (if x = 10 \<or> (x = 13 \<and> y \<noteq> 10) then Ch x # EOL # inputs_of False (y # ys)
      else Ch x # inputs_of True (y # ys))"

text \<open>
  For the proofs: the state machine over all inputs of a text, with the records it
  completes on the way and the reader it ends in.
\<close>

definition prepend_row ::
  "str list \<Rightarrow> csv_error + str list list \<times> reader \<Rightarrow> csv_error + str list list \<times> reader" where
  "prepend_row row res =
     (case res of Inl e \<Rightarrow> Inl e | Inr (rows, rf) \<Rightarrow> Inr (row # rows, rf))"

fun run :: "nat \<Rightarrow> reader \<Rightarrow> input list \<Rightarrow> csv_error + str list list \<times> reader" where
  "run limit r [] = Inr ([], r)"
| "run limit r (c # cs) =
     (case parse_process_char limit r c of
        Inl e \<Rightarrow> Inl e
      | Inr r' \<Rightarrow>
          if c = EOL \<and> p_state r' = START_RECORD
          then prepend_row (p_fields r') (run limit parse_reset cs)
          else run limit r' cs)"

section \<open>The rules of the specification\<close>

text \<open>
  The colon rule as the specification words it: the title must contain a colon, it is
  split at the first one, both halves are trimmed, and neither may be empty.
\<close>

definition colon_rule :: "str \<Rightarrow> (str \<times> str) option" where
  "colon_rule cleaned =
     (if 58 \<in> set cleaned
      then (let artist = py_strip (takeWhile (\<lambda>c. c \<noteq> 58) cleaned);
                album = py_strip (tl (dropWhile (\<lambda>c. c \<noteq> 58) cleaned))
            in if artist \<noteq> [] \<and> album \<noteq> [] then Some (artist, album) else None)
      else None)"

text \<open>
  The hyphen rule as the specification words it: split at the first \<^verbatim>\<open>" - "\<close>, both
  halves not empty after trimming.
\<close>

definition hyphen_rule :: "str \<Rightarrow> (str \<times> str) option" where
  "hyphen_rule cleaned =
     (case py_find (ascii '' - '') cleaned of
        None \<Rightarrow> None
      | Some i \<Rightarrow>
          (let artist = py_strip (take i cleaned);
               album = py_strip (drop (i + 3) cleaned)
           in if artist \<noteq> [] \<and> album \<noteq> [] then Some (artist, album) else None))"

text \<open>The conversion requests of a trace, for counting them.\<close>

fun is_convert_request :: "event \<Rightarrow> bool" where
  "is_convert_request (ConvertRequest u) = True"
| "is_convert_request e = False"

text \<open>
  What an entry shows of itself in the output: the parsed title and the date, or nothing
  when the title does not parse.
\<close>

definition entry_date :: "world \<Rightarrow> entry \<Rightarrow> str" where
  "entry_date w entry =
     (case parse_date (strptime_ymd w) (py_get entry (ascii ''published'') []) of
        Inr date_str \<Rightarrow> date_str
      | Inl err \<Rightarrow> [])"

definition entry_key ::
  "(str \<Rightarrow> (str \<times> str) option) \<Rightarrow> world \<Rightarrow> entry \<Rightarrow> (str \<times> str \<times> str) list" where
  "entry_key clean w entry =
     (case clean (py_get entry (ascii ''title'') []) of
        None \<Rightarrow> []
      | Some (artist, album) \<Rightarrow> [(artist, album, entry_date w entry)])"

definition result_key :: "result \<Rightarrow> str \<times> str \<times> str" where
  "result_key r = (case r of (artist, album, album_link, apple_link, date) \<Rightarrow> (artist, album, date))"

text \<open>
  The round trip of the specification: the records are written by \<^verbatim>\<open>generate_csv\<close> and
  the file is read back by \<^verbatim>\<open>csv.reader\<close>, whose field size limit is \<open>limit\<close> (131072
  unless \<^verbatim>\<open>csv.field_size_limit\<close> has been called).
\<close>

datatype round_trip_error = WriteError write_error | ReadError csv_error

definition csv_round_trip :: "nat \<Rightarrow> result list \<Rightarrow> round_trip_error + str list list" where
  "csv_round_trip limit results =
     (case generate_csv results of
        Inl e \<Rightarrow> Inl (WriteError e)
      | Inr written \<Rightarrow>
          (case csv_reader limit written of
             Inl e \<Rightarrow> Inl (ReadError e)
           | Inr rows \<Rightarrow> Inr rows))"

section \<open>A feed to run the program on\<close>

text \<open>
  The feed of the specification's end-to-end example, with a date in the feed's format:
  the search finds nothing for the first album and finds the second one, whose link the
  conversion service resolves.
\<close>

definition entry_one :: entry where
  "entry_one =
     [ascii ''title'' \<mapsto> ascii ''Artist A: Album One review'',
      ascii ''published'' \<mapsto> ascii ''Mon, 03 Nov 2025 10:00:00 +0000'']"

definition entry_two :: entry where
  "entry_two =
     [ascii ''title'' \<mapsto> ascii ''Artist B: Album Two'',
      ascii ''published'' \<mapsto> ascii ''Sun, 02 Nov 2025 09:30:00 +0000'']"

definition example_world :: world where
  "example_world =
     \<lparr>feed_entries = Some [entry_one, entry_two],
      search_api = (\<lambda>tr query.
        if query = ascii ''Artist B Album Two''
        then Json [Some (ascii ''https://music.apple.com/us/album/two/2'')]
        else Json []),
      convert_api = (\<lambda>tr music_url. Json (Some (ascii ''https://album.link/us/i/2''))),
      strptime_ymd = (\<lambda>s.
        if s = ascii ''Mon, 03 Nov 2025 10:00:00 +0000'' then Some (ascii ''2025-11-03'')
        else if s = ascii ''Sun, 02 Nov 2025 09:30:00 +0000'' then Some (ascii ''2025-11-02'')
        else None)\<rparr>"

text \<open>
  An entry as an Atom feed delivers it: the date is in ISO format, which
  \<^verbatim>\<open>strptime\<close> refuses for the format of the program, and which has no comma.
\<close>

definition atom_entry :: entry where
  "atom_entry =
     [ascii ''title'' \<mapsto> ascii ''Artist B: Album Two'',
      ascii ''published'' \<mapsto> ascii ''2025-11-02T09:30:00.001-08:00'']"

definition atom_world :: world where
  "atom_world = example_world\<lparr>feed_entries := Some [entry_one, atom_entry]\<rparr>"

section \<open>Facts about the string operations\<close>

lemma py_find_single:
  "py_find [c] s = (if c \<in> set s then Some (length (takeWhile (\<lambda>x. x \<noteq> c) s)) else None)"
  by (induction s) auto

lemma py_in_single: "py_in [c] s \<longleftrightarrow> c \<in> set s"
  by (simp add: py_in_def py_find_single)

lemma py_split1_single:
  "c \<in> set s \<Longrightarrow>
   py_split1 [c] s = [takeWhile (\<lambda>x. x \<noteq> c) s, tl (dropWhile (\<lambda>x. x \<noteq> c) s)]"
  by (simp add: py_split1_def py_find_single drop_Suc tl_drop dropWhile_eq_drop flip: takeWhile_eq_take)

lemma set_re_sub: "set (re_sub m s) \<subseteq> set s"
proof (induction m s rule: re_sub.induct)
  case (1 m)
  then show ?case by simp
next
  case (2 m x xs)
  show ?case
  proof (cases "m (x # xs)")
    case None
    with 2 show ?thesis by auto
  next
    case (Some r)
    show ?thesis
    proof (cases "length r < Suc (length xs)")
      case True
      with 2 Some have "set (re_sub m (drop (Suc (length xs) - length r) (x # xs)))
          \<subseteq> set (drop (Suc (length xs) - length r) (x # xs))"
        by simp
      also have "\<dots> \<subseteq> set (x # xs)" by (rule set_drop_subset)
      finally show ?thesis using Some True by simp
    next
      case False
      with 2 Some show ?thesis by auto
    qed
  qed
qed

lemma set_remove_patterns: "set (remove_patterns ps s) \<subseteq> set s"
proof (induction ps arbitrary: s)
  case Nil
  then show ?case by simp
next
  case (Cons p ps)
  have "set (remove_patterns ps (re_sub p s)) \<subseteq> set (re_sub p s)" by (rule Cons.IH)
  also have "\<dots> \<subseteq> set s" by (rule set_re_sub)
  finally show ?case by simp
qed

lemma set_py_strip: "set (py_strip s) \<subseteq> set s"
proof -
  have "set (py_strip s) \<subseteq> set (dropWhile is_space s)"
    unfolding py_strip_def using set_dropWhileD by fastforce
  also have "\<dots> \<subseteq> set s" using set_dropWhileD by fastforce
  finally show ?thesis .
qed

lemma py_in_sublist: "py_in sub s \<longleftrightarrow> sublist sub s"
  by (induction s) (auto simp add: py_in_def sublist_Cons_right)

lemma replace_from_skip: "replace_from old new k s = replace_from old new 0 (drop k s)"
  by (induction old new k s rule: replace_from.induct) simp_all

lemma replace_absent: "\<not> sublist old s \<Longrightarrow> py_replace old new s = s"
  unfolding py_replace_def
  by (induction s) (auto simp add: sublist_Cons_right)

lemma replace_prefix:
  "old \<noteq> [] \<Longrightarrow> py_replace old new (old @ post) = new @ py_replace old new post"
  unfolding py_replace_def
  by (cases old) (simp_all add: replace_from_skip [of _ _ "length _"])

lemma py_split_absent: "sep \<noteq> [] \<Longrightarrow> \<not> sublist sep s \<Longrightarrow> py_split sep s = [s]"
  using py_in_sublist [of sep s] by (simp add: py_split.simps [of sep s] py_in_def)

text \<open>
  Unfolding these evaluates \<^verbatim>\<open>AlbumFetcher.clean_title\<close> on a given title.
\<close>

lemmas parser_defs =
  ascii_def dollar_def at_dollar_def is_space_def ci_eq_def lower_cp_def py_strip_def py_in_def
  py_split1_def REMOVE_PATTERNS_def clean_title_def

section \<open>Strategy A: \<^verbatim>\<open>AlbumFetcher.clean_title\<close>\<close>

lemma clean_title_colon_rule:
  "clean_title title = colon_rule (py_strip (remove_patterns REMOVE_PATTERNS title))"
  by (auto simp add: clean_title_def colon_rule_def Let_def py_in_single py_split1_single)

text \<open>
  Claim C2. \<^verbatim>\<open>AlbumFetcher.clean_title\<close> returns a pair exactly when the title, with the
  noise patterns removed and trimmed, contains a colon and both sides of its first colon
  are not empty after trimming; the pair is then these two trimmed sides, so that only the
  first colon splits. A title without a colon gives \<open>None\<close>, and
  \<^verbatim>\<open>"Artist: Album: Subtitle"\<close> gives \<^verbatim>\<open>("Artist", "Album: Subtitle")\<close>. The function is
  total: there is no input on which it raises.
\<close>

theorem clean_title_first_colon:
  "(let cleaned = py_strip (remove_patterns REMOVE_PATTERNS title);
        artist = py_strip (takeWhile (\<lambda>c. c \<noteq> 58) cleaned);
        album = py_strip (tl (dropWhile (\<lambda>c. c \<noteq> 58) cleaned))
    in ((\<exists>p. clean_title title = Some p) \<longleftrightarrow> 58 \<in> set cleaned \<and> artist \<noteq> [] \<and> album \<noteq> []) \<and>
       (\<forall>p. clean_title title = Some p \<longrightarrow> p = (artist, album))) \<and>
   (58 \<notin> set title \<longrightarrow> clean_title title = None) \<and>
   clean_title (ascii ''Artist: Album: Subtitle'') = Some (ascii ''Artist'', ascii ''Album: Subtitle'') \<and>
   clean_title (ascii ''Martin Nodeland: Tributaries album review'') =
     Some (ascii ''Martin Nodeland'', ascii ''Tributaries'')"
proof -
  have "58 \<notin> set title \<Longrightarrow> 58 \<notin> set (py_strip (remove_patterns REMOVE_PATTERNS title))"
    using set_py_strip set_remove_patterns by blast
  then have no_colon: "58 \<notin> set title \<longrightarrow> clean_title title = None"
    by (simp add: clean_title_colon_rule colon_rule_def)
  have example: "clean_title (ascii ''Artist: Album: Subtitle'')
      = Some (ascii ''Artist'', ascii ''Album: Subtitle'')"
    by (simp add: parser_defs)
  have sample: "clean_title (ascii ''Martin Nodeland: Tributaries album review'') =
     Some (ascii ''Martin Nodeland'', ascii ''Tributaries'')"
    by (simp add: parser_defs)
  have rule: "(let cleaned = py_strip (remove_patterns REMOVE_PATTERNS title);
        artist = py_strip (takeWhile (\<lambda>c. c \<noteq> 58) cleaned);
        album = py_strip (tl (dropWhile (\<lambda>c. c \<noteq> 58) cleaned))
    in ((\<exists>p. clean_title title = Some p) \<longleftrightarrow> 58 \<in> set cleaned \<and> artist \<noteq> [] \<and> album \<noteq> []) \<and>
       (\<forall>p. clean_title title = Some p \<longrightarrow> p = (artist, album)))"
    by (auto simp add: clean_title_colon_rule colon_rule_def Let_def)
  from rule no_colon example sample show ?thesis by (intro conjI)
qed

theorem clean_title_first_colon_witness:
  "58 \<notin> set (ascii ''X Album Review'') \<and> clean_title (ascii ''X Album Review'') = None \<and>
   clean_title (ascii ''Artist: Album: Subtitle'') = Some (ascii ''Artist'', ascii ''Album: Subtitle'') \<and>
   (ascii ''Artist'', ascii ''Album: Subtitle'') =
     (py_strip (takeWhile (\<lambda>c. c \<noteq> 58)
        (py_strip (remove_patterns REMOVE_PATTERNS (ascii ''Artist: Album: Subtitle'')))),
      py_strip (tl (dropWhile (\<lambda>c. c \<noteq> 58)
        (py_strip (remove_patterns REMOVE_PATTERNS (ascii ''Artist: Album: Subtitle''))))))"
proof -
  have h: "58 \<notin> set (ascii ''X Album Review'')" by (simp add: ascii_def)
  with clean_title_first_colon [of "ascii ''X Album Review''"]
  have none: "clean_title (ascii ''X Album Review'') = None" by blast
  from clean_title_first_colon [of "ascii ''Artist: Album: Subtitle''"]
  have some: "clean_title (ascii ''Artist: Album: Subtitle'')
      = Some (ascii ''Artist'', ascii ''Album: Subtitle'')"
    and eq: "\<forall>p. clean_title (ascii ''Artist: Album: Subtitle'') = Some p \<longrightarrow>
      p = (py_strip (takeWhile (\<lambda>c. c \<noteq> 58)
        (py_strip (remove_patterns REMOVE_PATTERNS (ascii ''Artist: Album: Subtitle'')))),
      py_strip (tl (dropWhile (\<lambda>c. c \<noteq> 58)
        (py_strip (remove_patterns REMOVE_PATTERNS (ascii ''Artist: Album: Subtitle''))))))"
    unfolding Let_def by blast+
  from h none some eq show ?thesis by blast
qed

section \<open>Strategy B: \<^verbatim>\<open>JazzProfilesFetcher.clean_title\<close>\<close>

text \<open>
  Unfolding these evaluates \<^verbatim>\<open>JazzProfilesFetcher.clean_title\<close> on a given title.
\<close>

lemmas jp_parser_defs =
  ascii_def dollar_def at_dollar_def is_space_def ci_eq_def lower_cp_def py_strip_def py_in_def
  py_split1_def py_lower_def JP_REMOVE_PATTERNS_def jp_clean_title_def jp_try_hyphen_def
  jp_try_by_def by_regex_def

text \<open>What a successful match of a pattern element says about the subject.\<close>

lemma lit_Some:
  "lit p k s = Some r \<Longrightarrow> \<exists>x rest. s = x # rest \<and> ci_eq p x \<and> k rest = Some r"
  by (cases s) (auto split: if_splits)

lemma ws_star_Some:
  "ws_star k s = Some r \<Longrightarrow>
   \<exists>ws rest. s = ws @ rest \<and> (\<forall>c \<in> set ws. is_space c) \<and> k rest = Some r"
proof (induction s)
  case Nil
  then show ?case by simp
next
  case (Cons x xs)
  show ?case
  proof (cases "is_space x \<and> ws_star k xs \<noteq> None")
    case True
    with Cons.prems have "ws_star k xs = Some r" by auto
    with Cons.IH obtain ws rest where
      "xs = ws @ rest" "\<forall>c \<in> set ws. is_space c" "k rest = Some r"
      by blast
    with True have "x # xs = (x # ws) @ rest \<and> (\<forall>c \<in> set (x # ws). is_space c) \<and> k rest = Some r"
      by simp
    then show ?thesis by blast
  next
    case False
    with Cons.prems have "k (x # xs) = Some r" by (auto split: if_splits)
    then have "x # xs = [] @ (x # xs) \<and> (\<forall>c \<in> set []. is_space c) \<and> k (x # xs) = Some r"
      by simp
    then show ?thesis by blast
  qed
qed

lemma ws_plus_Some:
  assumes "ws_plus k s = Some r"
  shows "\<exists>ws rest. s = ws @ rest \<and> ws \<noteq> [] \<and> (\<forall>c \<in> set ws. is_space c) \<and> k rest = Some r"
proof (cases s)
  case Nil
  with assms show ?thesis by simp
next
  case (Cons x xs)
  with assms have x: "is_space x" and star: "ws_star k xs = Some r"
    by (simp_all split: if_splits)
  from ws_star_Some [OF star]
  obtain ws rest where "xs = ws @ rest" "\<forall>c \<in> set ws. is_space c" "k rest = Some r"
    by (elim exE conjE)
  with Cons x have "s = (x # ws) @ rest \<and> x # ws \<noteq> [] \<and> (\<forall>c \<in> set (x # ws). is_space c) \<and>
      k rest = Some r"
    by simp
  then show ?thesis by blast
qed

lemma dot_star_lazy_Some:
  "dot_star_lazy k s = Some r \<Longrightarrow>
   \<exists>g rest. s = g @ rest \<and> 10 \<notin> set g \<and> k rest = Some r"
proof (induction s)
  case Nil
  then show ?case by simp
next
  case (Cons x xs)
  show ?case
  proof (cases "k (x # xs)")
    case (Some r')
    with Cons.prems have "x # xs = [] @ (x # xs) \<and> 10 \<notin> set [] \<and> k (x # xs) = Some r"
      by simp
    then show ?thesis by blast
  next
    case None
    with Cons.prems have x: "x \<noteq> 10" and "dot_star_lazy k xs = Some r"
      by (auto split: if_splits)
    with Cons.IH obtain g rest where "xs = g @ rest" "10 \<notin> set g" "k rest = Some r"
      by blast
    with x have "x # xs = (x # g) @ rest \<and> 10 \<notin> set (x # g) \<and> k rest = Some r"
      by simp
    then show ?thesis by blast
  qed
qed

lemma dot_plus_lazy_Some:
  assumes "dot_plus_lazy k s = Some r"
  shows "\<exists>g rest. s = g @ rest \<and> g \<noteq> [] \<and> 10 \<notin> set g \<and> k rest = Some r"
proof (cases s)
  case Nil
  with assms show ?thesis by simp
next
  case (Cons x xs)
  with assms have x: "x \<noteq> 10" and star: "dot_star_lazy k xs = Some r"
    by (simp_all split: if_splits)
  from dot_star_lazy_Some [OF star]
  obtain g rest where "xs = g @ rest" "10 \<notin> set g" "k rest = Some r"
    by (elim exE conjE)
  with Cons x have "s = (x # g) @ rest \<and> x # g \<noteq> [] \<and> 10 \<notin> set (x # g) \<and> k rest = Some r"
    by simp
  then show ?thesis by blast
qed

lemma by_regex_Some:
  assumes "by_regex s = Some (g1, g2)"
  shows "\<exists>ws1 b y ws2 tail.
           s = g1 @ ws1 @ [b, y] @ ws2 @ g2 @ tail \<and>
           g1 \<noteq> [] \<and> 10 \<notin> set g1 \<and> ws1 \<noteq> [] \<and> (\<forall>c \<in> set ws1. is_space c) \<and>
           ci_eq 98 b \<and> ci_eq 121 y \<and>
           ws2 \<noteq> [] \<and> (\<forall>c \<in> set ws2. is_space c) \<and> g2 \<noteq> [] \<and> 10 \<notin> set g2 \<and>
           at_dollar tail"
proof -
  define K3 where "K3 n r2 r3 =
    (if at_dollar r3 then Some (take n s, take (length r2 - length r3) r2) else None)"
    for n :: nat and r2 r3 :: str
  define K2 where "K2 n r2 = dot_plus_lazy (K3 n r2) r2" for n r2
  define K1 where "K1 r1 = ws_plus (lit 98 (lit 121 (ws_plus (K2 (length s - length r1))))) r1"
    for r1
  have "by_regex s = dot_plus_lazy K1 s"
    unfolding by_regex_def K1_def K2_def K3_def ..
  with assms have "dot_plus_lazy K1 s = Some (g1, g2)" by simp
  from dot_plus_lazy_Some [OF this]
  obtain h1 r1 where s: "s = h1 @ r1" and h1: "h1 \<noteq> []" "10 \<notin> set h1"
    and k1: "K1 r1 = Some (g1, g2)"
    by (elim exE conjE)
  define n where "n = length s - length r1"
  from k1 have "ws_plus (lit 98 (lit 121 (ws_plus (K2 n)))) r1 = Some (g1, g2)"
    by (simp add: K1_def n_def)
  from ws_plus_Some [OF this]
  obtain ws1 t1 where r1: "r1 = ws1 @ t1" and ws1: "ws1 \<noteq> []" "\<forall>c \<in> set ws1. is_space c"
    and k2: "lit 98 (lit 121 (ws_plus (K2 n))) t1 = Some (g1, g2)"
    by (elim exE conjE)
  from lit_Some [OF k2]
  obtain b t2 where b: "t1 = b # t2" "ci_eq 98 b"
    and k3: "lit 121 (ws_plus (K2 n)) t2 = Some (g1, g2)"
    by (elim exE conjE)
  from lit_Some [OF k3]
  obtain y t3 where y: "t2 = y # t3" "ci_eq 121 y"
    and k4: "ws_plus (K2 n) t3 = Some (g1, g2)"
    by (elim exE conjE)
  from ws_plus_Some [OF k4]
  obtain ws2 r2 where r2: "t3 = ws2 @ r2" and ws2: "ws2 \<noteq> []" "\<forall>c \<in> set ws2. is_space c"
    and k5: "K2 n r2 = Some (g1, g2)"
    by (elim exE conjE)
  from k5 have "dot_plus_lazy (K3 n r2) r2 = Some (g1, g2)" by (simp add: K2_def)
  from dot_plus_lazy_Some [OF this]
  obtain h2 r3 where r3: "r2 = h2 @ r3" and h2: "h2 \<noteq> []" "10 \<notin> set h2"
    and k6: "K3 n r2 r3 = Some (g1, g2)"
    by (elim exE conjE)
  from k6 have tail: "at_dollar r3" and g1: "g1 = take n s"
    and g2: "g2 = take (length r2 - length r3) r2"
    unfolding K3_def by (simp_all split: if_splits)
  from g1 s have g1': "g1 = h1" by (simp add: n_def)
  from g2 r3 have g2': "g2 = h2" by simp
  have "s = g1 @ ws1 @ [b, y] @ ws2 @ g2 @ r3"
    unfolding g1' g2' using s r1 b y r2 r3 by simp
  with h1 h2 ws1 ws2 b y tail g1' g2' show ?thesis by blast
qed

lemma jp_try_hyphen_cascade:
  "jp_try_hyphen cleaned =
     (case hyphen_rule cleaned of Some p \<Rightarrow> Some p | None \<Rightarrow> jp_try_by cleaned)"
proof -
  have three: "length (ascii '' - '') = 3" by (simp add: ascii_def)
  show ?thesis
    by (cases "py_find (ascii '' - '') cleaned")
      (simp_all add: jp_try_hyphen_def hyphen_rule_def py_in_def py_split1_def Let_def three)
qed

lemma jp_clean_title_colon:
  "jp_clean_title title =
     (let cleaned = py_strip (remove_patterns JP_REMOVE_PATTERNS title)
      in case colon_rule cleaned of Some p \<Rightarrow> Some p | None \<Rightarrow> jp_try_hyphen cleaned)"
  by (auto simp add: jp_clean_title_def colon_rule_def Let_def py_in_single py_split1_single)

lemma jp_try_by_album_first:
  assumes "jp_try_by cleaned = Some (artist, album)"
  shows "\<exists>g1 ws1 b y ws2 g2 tail.
           cleaned = g1 @ ws1 @ [b, y] @ ws2 @ g2 @ tail \<and>
           ws1 \<noteq> [] \<and> (\<forall>c \<in> set ws1. is_space c) \<and> ci_eq 98 b \<and> ci_eq 121 y \<and>
           ws2 \<noteq> [] \<and> (\<forall>c \<in> set ws2. is_space c) \<and> at_dollar tail \<and>
           album = py_strip g1 \<and> artist = py_strip g2"
proof -
  from assms obtain g1 g2 where m: "by_regex cleaned = Some (g1, g2)"
    and "album = py_strip g1" "artist = py_strip g2"
    by (auto simp add: jp_try_by_def Let_def split: if_splits option.splits)
  with by_regex_Some [OF m] show ?thesis by blast
qed

text \<open>
  Claim C3. \<^verbatim>\<open>JazzProfilesFetcher.clean_title\<close> tries the colon rule, then the
  \<^verbatim>\<open>" - "\<close> rule, then the \<^verbatim>\<open>by\<close> pattern, on the same cleaned title, and returns the
  first success. So a title on which the colon rule succeeds gives the colon split, whether
  or not \<^verbatim>\<open>" - "\<close> occurs in it: \<^verbatim>\<open>"A: B - C"\<close> gives \<^verbatim>\<open>("A", "B - C")\<close>. A title on which only
  the \<^verbatim>\<open>by\<close> pattern succeeds is the album, whitespace, \<^verbatim>\<open>by\<close> in either case,
  whitespace, and the artist: \<^verbatim>\<open>"Midnight Blue by Kenny Burrell"\<close> gives
  \<^verbatim>\<open>("Kenny Burrell", "Midnight Blue")\<close>. When none of the three succeeds the result is
  \<open>None\<close>.
\<close>

theorem jp_clean_title_priority:
  "(let cleaned = py_strip (remove_patterns JP_REMOVE_PATTERNS title)
    in jp_clean_title title =
         (case colon_rule cleaned of
            Some p \<Rightarrow> Some p
          | None \<Rightarrow>
              (case hyphen_rule cleaned of
                 Some p \<Rightarrow> Some p
               | None \<Rightarrow> jp_try_by cleaned)) \<and>
       (\<forall>p. colon_rule cleaned = Some p \<longrightarrow> jp_clean_title title = Some p) \<and>
       (\<forall>artist album.
          colon_rule cleaned = None \<and> hyphen_rule cleaned = None \<and>
          jp_try_by cleaned = Some (artist, album) \<longrightarrow>
          jp_clean_title title = Some (artist, album) \<and>
          (\<exists>g1 ws1 b y ws2 g2 tail.
             cleaned = g1 @ ws1 @ [b, y] @ ws2 @ g2 @ tail \<and>
             ws1 \<noteq> [] \<and> (\<forall>c \<in> set ws1. is_space c) \<and> ci_eq 98 b \<and> ci_eq 121 y \<and>
             ws2 \<noteq> [] \<and> (\<forall>c \<in> set ws2. is_space c) \<and> at_dollar tail \<and>
             album = py_strip g1 \<and> artist = py_strip g2)) \<and>
       (colon_rule cleaned = None \<and> hyphen_rule cleaned = None \<and> jp_try_by cleaned = None \<longrightarrow>
          jp_clean_title title = None)) \<and>
   jp_clean_title (ascii ''A: B - C'') = Some (ascii ''A'', ascii ''B - C'') \<and>
   jp_clean_title (ascii ''Midnight Blue by Kenny Burrell'') =
     Some (ascii ''Kenny Burrell'', ascii ''Midnight Blue'')"
proof -
  have ex1: "jp_clean_title (ascii ''A: B - C'') = Some (ascii ''A'', ascii ''B - C'')"
    by (simp add: jp_parser_defs)
  have ex2: "jp_clean_title (ascii ''Midnight Blue by Kenny Burrell'') =
     Some (ascii ''Kenny Burrell'', ascii ''Midnight Blue'')"
    by (simp add: jp_parser_defs)
  define cleaned where "cleaned = py_strip (remove_patterns JP_REMOVE_PATTERNS title)"
  have cascade: "jp_clean_title title =
         (case colon_rule cleaned of
            Some p \<Rightarrow> Some p
          | None \<Rightarrow> (case hyphen_rule cleaned of Some p \<Rightarrow> Some p | None \<Rightarrow> jp_try_by cleaned))"
    unfolding cleaned_def jp_clean_title_colon Let_def jp_try_hyphen_cascade ..
  have colon: "\<forall>p. colon_rule cleaned = Some p \<longrightarrow> jp_clean_title title = Some p"
    by (simp add: cascade)
  have by_only: "\<forall>artist album.
          colon_rule cleaned = None \<and> hyphen_rule cleaned = None \<and>
          jp_try_by cleaned = Some (artist, album) \<longrightarrow>
          jp_clean_title title = Some (artist, album) \<and>
          (\<exists>g1 ws1 b y ws2 g2 tail.
             cleaned = g1 @ ws1 @ [b, y] @ ws2 @ g2 @ tail \<and>
             ws1 \<noteq> [] \<and> (\<forall>c \<in> set ws1. is_space c) \<and> ci_eq 98 b \<and> ci_eq 121 y \<and>
             ws2 \<noteq> [] \<and> (\<forall>c \<in> set ws2. is_space c) \<and> at_dollar tail \<and>
             album = py_strip g1 \<and> artist = py_strip g2)"
  proof (intro allI impI conjI)
    fix artist album
    assume a: "colon_rule cleaned = None \<and> hyphen_rule cleaned = None \<and>
          jp_try_by cleaned = Some (artist, album)"
    then show "jp_clean_title title = Some (artist, album)" by (simp add: cascade)
    from a have "jp_try_by cleaned = Some (artist, album)" by simp
    then show "\<exists>g1 ws1 b y ws2 g2 tail.
             cleaned = g1 @ ws1 @ [b, y] @ ws2 @ g2 @ tail \<and>
             ws1 \<noteq> [] \<and> (\<forall>c \<in> set ws1. is_space c) \<and> ci_eq 98 b \<and> ci_eq 121 y \<and>
             ws2 \<noteq> [] \<and> (\<forall>c \<in> set ws2. is_space c) \<and> at_dollar tail \<and>
             album = py_strip g1 \<and> artist = py_strip g2"
      by (rule jp_try_by_album_first)
  qed
  have none: "colon_rule cleaned = None \<and> hyphen_rule cleaned = None \<and> jp_try_by cleaned = None \<longrightarrow>
          jp_clean_title title = None"
    by (simp add: cascade)
  from cascade colon by_only none ex1 ex2 show ?thesis
    unfolding Let_def cleaned_def by (intro conjI)
qed

theorem jp_clean_title_priority_witness:
  "colon_rule (py_strip (remove_patterns JP_REMOVE_PATTERNS (ascii ''A: B - C'')))
     = Some (ascii ''A'', ascii ''B - C'') \<and>
   hyphen_rule (py_strip (remove_patterns JP_REMOVE_PATTERNS (ascii ''A: B - C'')))
     = Some (ascii ''A: B'', ascii ''C'') \<and>
   jp_clean_title (ascii ''A: B - C'') = Some (ascii ''A'', ascii ''B - C'') \<and>
   colon_rule (py_strip (remove_patterns JP_REMOVE_PATTERNS (ascii ''Blue Train BY John Coltrane review'')))
     = None \<and>
   hyphen_rule (py_strip (remove_patterns JP_REMOVE_PATTERNS (ascii ''Blue Train BY John Coltrane review'')))
     = None \<and>
   jp_try_by (py_strip (remove_patterns JP_REMOVE_PATTERNS (ascii ''Blue Train BY John Coltrane review'')))
     = Some (ascii ''John Coltrane'', ascii ''Blue Train'') \<and>
   jp_clean_title (ascii ''Blue Train BY John Coltrane review'')
     = Some (ascii ''John Coltrane'', ascii ''Blue Train'') \<and>
   colon_rule (py_strip (remove_patterns JP_REMOVE_PATTERNS (ascii ''Standby''))) = None \<and>
   hyphen_rule (py_strip (remove_patterns JP_REMOVE_PATTERNS (ascii ''Standby''))) = None \<and>
   jp_try_by (py_strip (remove_patterns JP_REMOVE_PATTERNS (ascii ''Standby''))) = None \<and>
   jp_clean_title (ascii ''Standby'') = None"
proof -
  have a: "colon_rule (py_strip (remove_patterns JP_REMOVE_PATTERNS (ascii ''A: B - C'')))
      = Some (ascii ''A'', ascii ''B - C'')"
    and b: "hyphen_rule (py_strip (remove_patterns JP_REMOVE_PATTERNS (ascii ''A: B - C'')))
      = Some (ascii ''A: B'', ascii ''C'')"
    by (simp_all add: jp_parser_defs colon_rule_def hyphen_rule_def)
  have c: "colon_rule (py_strip (remove_patterns JP_REMOVE_PATTERNS
        (ascii ''Blue Train BY John Coltrane review''))) = None"
    and d: "hyphen_rule (py_strip (remove_patterns JP_REMOVE_PATTERNS
        (ascii ''Blue Train BY John Coltrane review''))) = None"
    and e: "jp_try_by (py_strip (remove_patterns JP_REMOVE_PATTERNS
        (ascii ''Blue Train BY John Coltrane review'')))
      = Some (ascii ''John Coltrane'', ascii ''Blue Train'')"
    by (simp_all add: jp_parser_defs colon_rule_def hyphen_rule_def)
  have f: "colon_rule (py_strip (remove_patterns JP_REMOVE_PATTERNS (ascii ''Standby''))) = None"
    and g: "hyphen_rule (py_strip (remove_patterns JP_REMOVE_PATTERNS (ascii ''Standby''))) = None"
    and h: "jp_try_by (py_strip (remove_patterns JP_REMOVE_PATTERNS (ascii ''Standby''))) = None"
    by (simp_all add: jp_parser_defs colon_rule_def hyphen_rule_def)
  note rules = jp_clean_title_priority [unfolded Let_def, THEN conjunct1, THEN conjunct2]
  have 1: "jp_clean_title (ascii ''A: B - C'') = Some (ascii ''A'', ascii ''B - C'')"
    by (rule rules [THEN conjunct1, rule_format, OF a])
  have 2: "jp_clean_title (ascii ''Blue Train BY John Coltrane review'')
      = Some (ascii ''John Coltrane'', ascii ''Blue Train'')"
    by (rule rules [THEN conjunct2, THEN conjunct1, rule_format,
          OF conjI [OF c conjI [OF d e]], THEN conjunct1])
  have 3: "jp_clean_title (ascii ''Standby'') = None"
    by (rule rules [THEN conjunct2, THEN conjunct2, rule_format, OF conjI [OF f conjI [OF g h]]])
  from a b c d e f g h 1 2 3 show ?thesis by (intro conjI)
qed

text \<open>
  Claim C10. In \<^verbatim>\<open>JazzProfilesFetcher.clean_title\<close> a colon whose split leaves an empty
  artist or an empty album does not end the parse: on the same cleaned title the
  \<^verbatim>\<open>" - "\<close> split is tried next, and when that gives no pair, the \<^verbatim>\<open>by\<close> pattern: if
  the title in lower case holds \<^verbatim>\<open>" by "\<close> and the pattern matches with both groups not
  empty once trimmed, the result is the second group as artist and the first as album, and
  otherwise there is none. So \<^verbatim>\<open>": B - C"\<close> gives \<^verbatim>\<open>(": B", "C")\<close>,
  \<^verbatim>\<open>": Kind of Blue by Miles Davis"\<close> gives \<^verbatim>\<open>("Miles Davis", ": Kind of Blue")\<close>, and
  \<^verbatim>\<open>"Solo:"\<close>, which has no other separator, gives nothing.
\<close>

theorem jp_clean_title_empty_half_falls_through:
  "(let cleaned = py_strip (remove_patterns JP_REMOVE_PATTERNS title)
    in 58 \<in> set cleaned \<and>
       (py_strip (takeWhile (\<lambda>c. c \<noteq> 58) cleaned) = [] \<or>
        py_strip (tl (dropWhile (\<lambda>c. c \<noteq> 58) cleaned)) = []) \<longrightarrow>
       jp_clean_title title =
         (case hyphen_rule cleaned of
            Some p \<Rightarrow> Some p
          | None \<Rightarrow>
              (if py_in (ascii '' by '') (py_lower cleaned)
               then (case by_regex cleaned of
                       Some (g1, g2) \<Rightarrow>
                         if py_strip g2 \<noteq> [] \<and> py_strip g1 \<noteq> []
                         then Some (py_strip g2, py_strip g1) else None
                     | None \<Rightarrow> None)
               else None))) \<and>
   jp_clean_title (ascii '': B - C'') = Some (ascii '': B'', ascii ''C'') \<and>
   jp_clean_title (ascii '': Kind of Blue by Miles Davis'')
     = Some (ascii ''Miles Davis'', ascii '': Kind of Blue'') \<and>
   jp_clean_title (ascii ''Solo:'') = None"
proof -
  have ex1: "jp_clean_title (ascii '': B - C'') = Some (ascii '': B'', ascii ''C'')"
    by (simp add: jp_parser_defs)
  have ex2: "jp_clean_title (ascii '': Kind of Blue by Miles Davis'')
     = Some (ascii ''Miles Davis'', ascii '': Kind of Blue'')"
    by (simp add: jp_parser_defs)
  have ex3: "jp_clean_title (ascii ''Solo:'') = None"
    by (simp add: jp_parser_defs)
  have by_pattern: "jp_try_by cleaned =
      (if py_in (ascii '' by '') (py_lower cleaned)
       then (case by_regex cleaned of
               Some (g1, g2) \<Rightarrow>
                 if py_strip g2 \<noteq> [] \<and> py_strip g1 \<noteq> []
                 then Some (py_strip g2, py_strip g1) else None
             | None \<Rightarrow> None)
       else None)" for cleaned
    by (simp add: jp_try_by_def Let_def split: option.splits)
  have "colon_rule cleaned = None"
    if "58 \<in> set cleaned \<and>
       (py_strip (takeWhile (\<lambda>c. c \<noteq> 58) cleaned) = [] \<or>
        py_strip (tl (dropWhile (\<lambda>c. c \<noteq> 58) cleaned)) = [])" for cleaned
    using that by (auto simp add: colon_rule_def Let_def)
  then have general: "58 \<in> set cleaned \<and>
       (py_strip (takeWhile (\<lambda>c. c \<noteq> 58) cleaned) = [] \<or>
        py_strip (tl (dropWhile (\<lambda>c. c \<noteq> 58) cleaned)) = []) \<longrightarrow>
       jp_clean_title title =
         (case hyphen_rule cleaned of
            Some p \<Rightarrow> Some p
          | None \<Rightarrow>
              (if py_in (ascii '' by '') (py_lower cleaned)
               then (case by_regex cleaned of
                       Some (g1, g2) \<Rightarrow>
                         if py_strip g2 \<noteq> [] \<and> py_strip g1 \<noteq> []
                         then Some (py_strip g2, py_strip g1) else None
                     | None \<Rightarrow> None)
               else None))"
    if "cleaned = py_strip (remove_patterns JP_REMOVE_PATTERNS title)" for cleaned
    unfolding that jp_clean_title_colon [of title] Let_def jp_try_hyphen_cascade by_pattern
    by simp
  from general [OF refl] ex1 ex2 ex3 show ?thesis unfolding Let_def by (intro conjI)
qed

theorem jp_clean_title_empty_half_falls_through_witness:
  "58 \<in> set (py_strip (remove_patterns JP_REMOVE_PATTERNS (ascii '': Kind of Blue by Miles Davis''))) \<and>
   py_strip (takeWhile (\<lambda>c. c \<noteq> 58)
     (py_strip (remove_patterns JP_REMOVE_PATTERNS (ascii '': Kind of Blue by Miles Davis'')))) = [] \<and>
   hyphen_rule (py_strip (remove_patterns JP_REMOVE_PATTERNS (ascii '': Kind of Blue by Miles Davis'')))
     = None \<and>
   py_in (ascii '' by '')
     (py_lower (py_strip (remove_patterns JP_REMOVE_PATTERNS (ascii '': Kind of Blue by Miles Davis'')))) \<and>
   by_regex (py_strip (remove_patterns JP_REMOVE_PATTERNS (ascii '': Kind of Blue by Miles Davis'')))
     = Some (ascii '': Kind of Blue'', ascii ''Miles Davis'') \<and>
   jp_clean_title (ascii '': Kind of Blue by Miles Davis'')
     = Some (ascii ''Miles Davis'', ascii '': Kind of Blue'')"
proof -
  have cleaned: "py_strip (remove_patterns JP_REMOVE_PATTERNS (ascii '': Kind of Blue by Miles Davis''))
      = ascii '': Kind of Blue by Miles Davis''"
    by (simp add: jp_parser_defs)
  have a: "58 \<in> set (py_strip (remove_patterns JP_REMOVE_PATTERNS (ascii '': Kind of Blue by Miles Davis'')))"
    and b: "py_strip (takeWhile (\<lambda>c. c \<noteq> 58)
     (py_strip (remove_patterns JP_REMOVE_PATTERNS (ascii '': Kind of Blue by Miles Davis'')))) = []"
    unfolding cleaned by (simp_all add: ascii_def py_strip_def)
  have c: "hyphen_rule (py_strip (remove_patterns JP_REMOVE_PATTERNS (ascii '': Kind of Blue by Miles Davis'')))
     = None"
    unfolding cleaned by (simp add: hyphen_rule_def jp_parser_defs)
  have d: "py_in (ascii '' by '')
     (py_lower (py_strip (remove_patterns JP_REMOVE_PATTERNS (ascii '': Kind of Blue by Miles Davis''))))"
    unfolding cleaned by (simp add: jp_parser_defs)
  have e: "by_regex (py_strip (remove_patterns JP_REMOVE_PATTERNS (ascii '': Kind of Blue by Miles Davis'')))
     = Some (ascii '': Kind of Blue'', ascii ''Miles Davis'')"
    unfolding cleaned by (simp add: jp_parser_defs)
  have s: "py_strip (ascii ''Miles Davis'') = ascii ''Miles Davis''"
    "py_strip (ascii '': Kind of Blue'') = ascii '': Kind of Blue''"
    by (simp_all add: ascii_def py_strip_def is_space_def)
  have ne: "ascii ''Miles Davis'' \<noteq> []" "ascii '': Kind of Blue'' \<noteq> []"
    by (simp_all add: ascii_def)
  note cascade = jp_clean_title_empty_half_falls_through
      [of "ascii '': Kind of Blue by Miles Davis''", unfolded Let_def,
       THEN conjunct1, rule_format, OF conjI [OF a disjI1 [OF b]]]
  from d have f: "jp_clean_title (ascii '': Kind of Blue by Miles Davis'')
     = Some (ascii ''Miles Davis'', ascii '': Kind of Blue'')"
    unfolding cascade c e by (simp add: s ne)
  from a b c d e f show ?thesis by (intro conjI)
qed

section \<open>Link conversion\<close>

text \<open>
  Where a region pattern can begin in a link: if it begins before a region segment and
  runs into it, it also begins there in the link without the segment.
\<close>

lemma region_overlap:
  assumes "q \<noteq> []" "a \<noteq> 47" "b \<noteq> 47" "d \<noteq> 47"
    and "prefix [47, a, b, 47, 105, 47] (q @ [47, c, d, 47, 105, 47] @ post)"
  shows "prefix [47, a, b, 47, 105, 47] (q @ [47, 105, 47] @ post)"
proof (cases q)
  case Nil
  with assms show ?thesis by simp
next
  case q1: (Cons x1 r1)
  show ?thesis
  proof (cases r1)
    case Nil
    with q1 assms show ?thesis by simp
  next
    case q2: (Cons x2 r2)
    show ?thesis
    proof (cases r2)
      case Nil
      with q1 q2 assms show ?thesis by simp
    next
      case q3: (Cons x3 r3)
      show ?thesis
      proof (cases r3)
        case Nil
        with q1 q2 q3 assms show ?thesis by simp
      next
        case q4: (Cons x4 r4)
        show ?thesis
        proof (cases r4)
          case Nil
          with q1 q2 q3 q4 assms show ?thesis by simp
        next
          case q5: (Cons x5 r5)
          show ?thesis
          proof (cases r5)
            case Nil
            with q1 q2 q3 q4 q5 assms show ?thesis by simp
          next
            case (Cons x6 r6)
            with q1 q2 q3 q4 q5 assms show ?thesis by simp
          qed
        qed
      qed
    qed
  qed
qed

lemma region_other_absent:
  assumes ne: "a \<noteq> 47" "b \<noteq> 47" "c \<noteq> 47" "d \<noteq> 47" "(a, b) \<noteq> (c, d)"
    and sub: "sublist [47, a, b, 47, 105, 47] (pre @ [47, c, d, 47, 105, 47] @ post)"
  shows "sublist [47, a, b, 47, 105, 47] (pre @ [47, 105, 47] @ post)"
  using sub
proof (induction pre)
  case Nil
  with ne show ?case by (auto simp add: sublist_Cons_right)
next
  case (Cons x pre)
  from Cons.prems
  consider "prefix [47, a, b, 47, 105, 47] ((x # pre) @ [47, c, d, 47, 105, 47] @ post)"
    | "sublist [47, a, b, 47, 105, 47] (pre @ [47, c, d, 47, 105, 47] @ post)"
    by (auto simp add: sublist_Cons_right)
  then show ?case
  proof cases
    case 1
    with ne have "prefix [47, a, b, 47, 105, 47] ((x # pre) @ [47, 105, 47] @ post)"
      by (intro region_overlap [where c = c and d = d]) simp_all
    then show ?thesis by (simp add: sublist_Cons_right)
  next
    case 2
    with Cons.IH show ?thesis by (simp add: sublist_Cons_right)
  qed
qed

lemma replace_region:
  assumes ne: "a \<noteq> 47" "b \<noteq> 47"
    and absent: "\<not> sublist [47, a, b, 47, 105, 47] (pre @ [47, 105, 47] @ post)"
  shows "py_replace [47, a, b, 47, 105, 47] [47, 105, 47] (pre @ [47, a, b, 47, 105, 47] @ post)
         = pre @ [47, 105, 47] @ post"
  using absent
proof (induction pre)
  case Nil
  then have "\<not> sublist [47, a, b, 47, 105, 47] post"
    by (simp add: sublist_Cons_right)
  then show ?case
    using replace_prefix [of "[47, a, b, 47, 105, 47]" "[47, 105, 47]" post]
    by (simp add: replace_absent)
next
  case (Cons x pre)
  have no: "\<not> prefix [47, a, b, 47, 105, 47] ((x # pre) @ [47, a, b, 47, 105, 47] @ post)"
  proof
    assume "prefix [47, a, b, 47, 105, 47] ((x # pre) @ [47, a, b, 47, 105, 47] @ post)"
    with ne have "prefix [47, a, b, 47, 105, 47] ((x # pre) @ [47, 105, 47] @ post)"
      by (intro region_overlap [where c = a and d = b]) simp_all
    with Cons.prems show False by (simp add: sublist_Cons_right)
  qed
  from Cons.prems have "\<not> sublist [47, a, b, 47, 105, 47] (pre @ [47, 105, 47] @ post)"
    by (simp add: sublist_Cons_right)
  with Cons.IH have "py_replace [47, a, b, 47, 105, 47] [47, 105, 47]
      (pre @ [47, a, b, 47, 105, 47] @ post) = pre @ [47, 105, 47] @ post"
    by simp
  moreover from no have "replace_from [47, a, b, 47, 105, 47] [47, 105, 47] 0
      (x # pre @ [47, a, b, 47, 105, 47] @ post) =
      x # replace_from [47, a, b, 47, 105, 47] [47, 105, 47] 0 (pre @ [47, a, b, 47, 105, 47] @ post)"
    by (simp del: Cons_prefix_Cons)
  ultimately show ?case by (simp add: py_replace_def del: Cons_prefix_Cons)
qed

lemma region_codes:
  "ascii ''/us/i/'' = [47, 117, 115, 47, 105, 47]"
  "ascii ''/uk/i/'' = [47, 117, 107, 47, 105, 47]"
  "ascii ''/ca/i/'' = [47, 99, 97, 47, 105, 47]"
  "ascii ''/i/'' = [47, 105, 47]"
  "ascii ''us'' = [117, 115]" "ascii ''uk'' = [117, 107]" "ascii ''ca'' = [99, 97]"
  "ascii ''/'' = [47]"
  by (simp_all add: ascii_def)

text \<open>
  Claim C6. After a successful conversion response, a link with one of the region
  segments \<^verbatim>\<open>/us/\<close>, \<^verbatim>\<open>/uk/\<close>, \<^verbatim>\<open>/ca/\<close> in front of the segment \<^verbatim>\<open>/i/\<close> is returned
  without it (provided what remains has no region segment of its own), so that
  \<^verbatim>\<open>https://album.link/us/i/id123\<close> becomes \<^verbatim>\<open>https://album.link/i/id123\<close>; a link without
  such a segment is returned as it is.
\<close>

theorem strip_country_region:
  "(\<forall>region pre post.
      region \<in> {ascii ''us'', ascii ''uk'', ascii ''ca''} \<and>
      \<not> py_in (ascii ''/us/i/'') (pre @ ascii ''/i/'' @ post) \<and>
      \<not> py_in (ascii ''/uk/i/'') (pre @ ascii ''/i/'' @ post) \<and>
      \<not> py_in (ascii ''/ca/i/'') (pre @ ascii ''/i/'' @ post) \<longrightarrow>
      strip_country (pre @ ascii ''/'' @ region @ ascii ''/i/'' @ post) = pre @ ascii ''/i/'' @ post) \<and>
   (\<forall>u. \<not> py_in (ascii ''/us/i/'') u \<and> \<not> py_in (ascii ''/uk/i/'') u \<and>
        \<not> py_in (ascii ''/ca/i/'') u \<longrightarrow> strip_country u = u) \<and>
   (\<forall>(w :: world) tr music_url u. convert_api w (tr @ [Sleep 6]) music_url = Json (Some u) \<and> u \<noteq> [] \<longrightarrow>
      fst (convert_url_to_album_link w tr music_url) = Some (strip_country u)) \<and>
   strip_country (ascii ''https://album.link/us/i/id123'') = ascii ''https://album.link/i/id123''"
proof (intro conjI allI impI)
  fix u
  assume "\<not> py_in (ascii ''/us/i/'') u \<and> \<not> py_in (ascii ''/uk/i/'') u \<and>
        \<not> py_in (ascii ''/ca/i/'') u"
  then show "strip_country u = u"
    by (simp add: strip_country_def py_in_sublist replace_absent)
next
  fix w :: world and tr music_url u
  assume "convert_api w (tr @ [Sleep 6]) music_url = Json (Some u) \<and> u \<noteq> []"
  then show "fst (convert_url_to_album_link w tr music_url) = Some (strip_country u)"
    by (simp add: convert_url_to_album_link_def)
next
  show "strip_country (ascii ''https://album.link/us/i/id123'') = ascii ''https://album.link/i/id123''"
    by (simp add: strip_country_def py_replace_def ascii_def)
next
  fix region pre post :: str
  let ?rest = "pre @ [47, 105, 47] @ post"
  assume "region \<in> {ascii ''us'', ascii ''uk'', ascii ''ca''} \<and>
      \<not> py_in (ascii ''/us/i/'') (pre @ ascii ''/i/'' @ post) \<and>
      \<not> py_in (ascii ''/uk/i/'') (pre @ ascii ''/i/'' @ post) \<and>
      \<not> py_in (ascii ''/ca/i/'') (pre @ ascii ''/i/'' @ post)"
  then have region: "region = [117, 115] \<or> region = [117, 107] \<or> region = [99, 97]"
    and us: "\<not> sublist [47, 117, 115, 47, 105, 47] ?rest"
    and uk: "\<not> sublist [47, 117, 107, 47, 105, 47] ?rest"
    and ca: "\<not> sublist [47, 99, 97, 47, 105, 47] ?rest"
    by (simp_all add: py_in_sublist region_codes)
  from region consider (US) "region = [117, 115]" | (UK) "region = [117, 107]" | (CA) "region = [99, 97]"
    by blast
  then have "strip_country (pre @ [47] @ region @ [47, 105, 47] @ post) = ?rest"
  proof cases
    case US
    have "py_replace [47, 117, 115, 47, 105, 47] [47, 105, 47]
        (pre @ [47, 117, 115, 47, 105, 47] @ post) = ?rest"
      using us by (intro replace_region) simp_all
    with US uk ca show ?thesis
      by (simp add: strip_country_def region_codes replace_absent)
  next
    case UK
    have "\<not> sublist [47, 117, 115, 47, 105, 47] (pre @ [47, 117, 107, 47, 105, 47] @ post)"
      using us region_other_absent [of 117 115 117 107 pre post] by auto
    then have 1: "py_replace [47, 117, 115, 47, 105, 47] [47, 105, 47]
        (pre @ [47, 117, 107, 47, 105, 47] @ post) = pre @ [47, 117, 107, 47, 105, 47] @ post"
      by (rule replace_absent)
    have 2: "py_replace [47, 117, 107, 47, 105, 47] [47, 105, 47]
        (pre @ [47, 117, 107, 47, 105, 47] @ post) = ?rest"
      using uk by (intro replace_region) simp_all
    from UK 1 2 ca show ?thesis
      by (simp add: strip_country_def region_codes replace_absent)
  next
    case CA
    have "\<not> sublist [47, 117, 115, 47, 105, 47] (pre @ [47, 99, 97, 47, 105, 47] @ post)"
      using us region_other_absent [of 117 115 99 97 pre post] by auto
    then have 1: "py_replace [47, 117, 115, 47, 105, 47] [47, 105, 47]
        (pre @ [47, 99, 97, 47, 105, 47] @ post) = pre @ [47, 99, 97, 47, 105, 47] @ post"
      by (rule replace_absent)
    have "\<not> sublist [47, 117, 107, 47, 105, 47] (pre @ [47, 99, 97, 47, 105, 47] @ post)"
      using uk region_other_absent [of 117 107 99 97 pre post] by auto
    then have 2: "py_replace [47, 117, 107, 47, 105, 47] [47, 105, 47]
        (pre @ [47, 99, 97, 47, 105, 47] @ post) = pre @ [47, 99, 97, 47, 105, 47] @ post"
      by (rule replace_absent)
    have 3: "py_replace [47, 99, 97, 47, 105, 47] [47, 105, 47]
        (pre @ [47, 99, 97, 47, 105, 47] @ post) = ?rest"
      using ca by (intro replace_region) simp_all
    from CA 1 2 3 show ?thesis
      by (simp add: strip_country_def region_codes)
  qed
  then show "strip_country (pre @ ascii ''/'' @ region @ ascii ''/i/'' @ post) = pre @ ascii ''/i/'' @ post"
    by (simp add: region_codes)
qed

theorem strip_country_region_witness:
  "ascii ''uk'' \<in> {ascii ''us'', ascii ''uk'', ascii ''ca''} \<and>
   \<not> py_in (ascii ''/us/i/'') (ascii ''https://album.link'' @ ascii ''/i/'' @ ascii ''id123'') \<and>
   \<not> py_in (ascii ''/uk/i/'') (ascii ''https://album.link'' @ ascii ''/i/'' @ ascii ''id123'') \<and>
   \<not> py_in (ascii ''/ca/i/'') (ascii ''https://album.link'' @ ascii ''/i/'' @ ascii ''id123'') \<and>
   strip_country (ascii ''https://album.link'' @ ascii ''/'' @ ascii ''uk'' @ ascii ''/i/'' @ ascii ''id123'')
     = ascii ''https://album.link'' @ ascii ''/i/'' @ ascii ''id123''"
proof -
  have h: "ascii ''uk'' \<in> {ascii ''us'', ascii ''uk'', ascii ''ca''} \<and>
   \<not> py_in (ascii ''/us/i/'') (ascii ''https://album.link'' @ ascii ''/i/'' @ ascii ''id123'') \<and>
   \<not> py_in (ascii ''/uk/i/'') (ascii ''https://album.link'' @ ascii ''/i/'' @ ascii ''id123'') \<and>
   \<not> py_in (ascii ''/ca/i/'') (ascii ''https://album.link'' @ ascii ''/i/'' @ ascii ''id123'')"
    by (simp add: py_in_def ascii_def)
  from strip_country_region have "\<forall>region pre post.
      region \<in> {ascii ''us'', ascii ''uk'', ascii ''ca''} \<and>
      \<not> py_in (ascii ''/us/i/'') (pre @ ascii ''/i/'' @ post) \<and>
      \<not> py_in (ascii ''/uk/i/'') (pre @ ascii ''/i/'' @ post) \<and>
      \<not> py_in (ascii ''/ca/i/'') (pre @ ascii ''/i/'' @ post) \<longrightarrow>
      strip_country (pre @ ascii ''/'' @ region @ ascii ''/i/'' @ post) = pre @ ascii ''/i/'' @ post"
    by (rule conjunct1)
  with h show ?thesis by blast
qed

section \<open>Link resolution\<close>

lemma search_apple_music_Some:
  "search_apple_music w tr artist album = (Some u, tr1) \<Longrightarrow> u \<noteq> []"
  by (auto simp add: search_apple_music_def Let_def
      split: response.splits list.splits option.splits if_splits)

lemma search_apple_music_trace:
  "snd (search_apple_music w tr artist album) = tr @ [SearchRequest (artist @ [32] @ album)]"
  by (simp add: search_apple_music_def Let_def split: response.splits list.splits option.splits)

text \<open>
  Claim C7. When the catalog search of \<^verbatim>\<open>search_album_link\<close> returns no link, the
  result is \<open>None\<close> and the conversion service is not called: the only event added to
  the trace is the search request, so the trace holds as many conversion requests as
  before.
\<close>

theorem search_album_link_short_circuit:
  "fst (search_apple_music w tr artist album) = None \<longrightarrow>
     search_album_link w tr artist album = (None, tr @ [SearchRequest (artist @ [32] @ album)]) \<and>
     length (filter is_convert_request (snd (search_album_link w tr artist album))) =
       length (filter is_convert_request tr)"
proof
  assume none: "fst (search_apple_music w tr artist album) = None"
  have tr: "snd (search_apple_music w tr artist album) = tr @ [SearchRequest (artist @ [32] @ album)]"
    by (simp add: search_apple_music_def Let_def split: response.splits list.splits option.splits)
  from none tr have "search_apple_music w tr artist album
      = (None, tr @ [SearchRequest (artist @ [32] @ album)])"
    by (metis prod.collapse)
  then have "search_album_link w tr artist album = (None, tr @ [SearchRequest (artist @ [32] @ album)])"
    by (simp add: search_album_link_def truthy_def)
  then show "search_album_link w tr artist album = (None, tr @ [SearchRequest (artist @ [32] @ album)]) \<and>
     length (filter is_convert_request (snd (search_album_link w tr artist album))) =
       length (filter is_convert_request tr)"
    by simp
qed

theorem search_album_link_short_circuit_witness:
  "fst (search_apple_music example_world [] (ascii ''Artist A'') (ascii ''Album One'')) = None \<and>
   search_album_link example_world [] (ascii ''Artist A'') (ascii ''Album One'')
     = (None, [SearchRequest (ascii ''Artist A Album One'')]) \<and>
   length (filter is_convert_request
     (snd (search_album_link example_world [] (ascii ''Artist A'') (ascii ''Album One'')))) = 0"
proof -
  have h: "fst (search_apple_music example_world [] (ascii ''Artist A'') (ascii ''Album One'')) = None"
    by (simp add: search_apple_music_def example_world_def ascii_def)
  with search_album_link_short_circuit [of example_world "[]" "ascii ''Artist A''" "ascii ''Album One''"]
  show ?thesis by (simp add: ascii_def)
qed

section \<open>The feed processor, entry by entry\<close>

text \<open>
  One turn of the loop of \<^verbatim>\<open>process_feed\<close> whose date step has returned: when the title
  does not parse, the results stay as they are; when it parses, exactly one record is
  appended, with the parsed artist and album, also when the search finds nothing and no
  conversion is made, and then both link fields of the record are the empty string.
\<close>

lemma process_entry_parsed:
  "parse_date (strptime_ymd w) (py_get entry (ascii ''published'') []) = Inr date_str \<longrightarrow>
     (clean (py_get entry (ascii ''title'') []) = None \<longrightarrow>
        process_entry clean w (results, tr) entry = Inr (results, tr)) \<and>
     (\<forall>artist album. clean (py_get entry (ascii ''title'') []) = Some (artist, album) \<longrightarrow>
        (\<exists>album_link apple_link tr'.
           process_entry clean w (results, tr) entry =
             Inr (results @ [(artist, album, album_link, apple_link, date_str)], tr') \<and>
           (fst (search_apple_music w tr artist album) = None \<longrightarrow>
              album_link = [] \<and> apple_link = []) \<and>
           (\<forall>u tr1. search_apple_music w tr artist album = (Some u, tr1) \<longrightarrow>
              apple_link = u \<and>
              album_link = or_empty (fst (convert_url_to_album_link w tr1 u)))))"
proof (intro impI conjI allI)
  assume "parse_date (strptime_ymd w) (py_get entry (ascii ''published'') []) = Inr date_str"
    and "clean (py_get entry (ascii ''title'') []) = None"
  then show "process_entry clean w (results, tr) entry = Inr (results, tr)"
    by (simp add: process_entry_def)
next
  fix artist album
  assume date: "parse_date (strptime_ymd w) (py_get entry (ascii ''published'') []) = Inr date_str"
    and parsed: "clean (py_get entry (ascii ''title'') []) = Some (artist, album)"
  obtain apple_url tr1 where search: "search_apple_music w tr artist album = (apple_url, tr1)"
    by (cases "search_apple_music w tr artist album")
  show "\<exists>album_link apple_link tr'.
           process_entry clean w (results, tr) entry =
             Inr (results @ [(artist, album, album_link, apple_link, date_str)], tr') \<and>
           (fst (search_apple_music w tr artist album) = None \<longrightarrow>
              album_link = [] \<and> apple_link = []) \<and>
           (\<forall>u tr1. search_apple_music w tr artist album = (Some u, tr1) \<longrightarrow>
              apple_link = u \<and>
              album_link = or_empty (fst (convert_url_to_album_link w tr1 u)))"
  proof (cases apple_url)
    case None
    with date parsed search
    have "process_entry clean w (results, tr) entry =
        Inr (results @ [(artist, album, [], [], date_str)], tr1)"
      by (simp add: process_entry_def truthy_def or_empty_def)
    with None search show ?thesis by simp
  next
    case (Some u)
    obtain album_link tr2 where conv: "convert_url_to_album_link w tr1 u = (album_link, tr2)"
      by (cases "convert_url_to_album_link w tr1 u")
    from Some search have "u \<noteq> []" by (simp add: search_apple_music_Some)
    with conv Some date parsed search
    have "process_entry clean w (results, tr) entry =
        Inr (results @ [(artist, album, or_empty album_link, u, date_str)], tr2)"
      by (simp add: process_entry_def truthy_def or_empty_def)
    with Some search conv show ?thesis by simp
  qed
qed

lemma process_entry_appends_one:
  assumes "parse_date (strptime_ymd w) (py_get entry (ascii ''published'') []) = Inr date_str"
    and "clean (py_get entry (ascii ''title'') []) = Some (artist, album)"
  shows "\<exists>album_link apple_link tr'.
           process_entry clean w (results, tr) entry =
             Inr (results @ [(artist, album, album_link, apple_link, date_str)], tr')"
  using process_entry_parsed [of w entry date_str clean results tr] assms by blast

text \<open>The example feed, evaluated.\<close>

lemma ascii_Cons_nonempty: "ascii (c # cs) \<noteq> []"
  by (simp add: ascii_def)

lemma optional_simps:
  "truthy None = False" "truthy (Some v) = (v \<noteq> [])" "or_empty None = []" "or_empty (Some v) = v"
  by (simp_all add: truthy_def or_empty_def)

lemma example_titles:
  "clean_title (ascii ''Artist A: Album One review'') = Some (ascii ''Artist A'', ascii ''Album One'')"
  "clean_title (ascii ''Artist B: Album Two'') = Some (ascii ''Artist B'', ascii ''Album Two'')"
  by (simp_all add: parser_defs)

lemma example_entries:
  "py_get entry_one (ascii ''title'') [] = ascii ''Artist A: Album One review''"
  "py_get entry_one (ascii ''published'') [] = ascii ''Mon, 03 Nov 2025 10:00:00 +0000''"
  "py_get entry_two (ascii ''title'') [] = ascii ''Artist B: Album Two''"
  "py_get entry_two (ascii ''published'') [] = ascii ''Sun, 02 Nov 2025 09:30:00 +0000''"
  "py_get atom_entry (ascii ''title'') [] = ascii ''Artist B: Album Two''"
  "py_get atom_entry (ascii ''published'') [] = ascii ''2025-11-02T09:30:00.001-08:00''"
  by (simp_all add: py_get_def entry_one_def entry_two_def atom_entry_def ascii_def)

lemma example_dates:
  "parse_date (strptime_ymd example_world) (ascii ''Mon, 03 Nov 2025 10:00:00 +0000'') = Inr (ascii ''2025-11-03'')"
  "parse_date (strptime_ymd example_world) (ascii ''Sun, 02 Nov 2025 09:30:00 +0000'') = Inr (ascii ''2025-11-02'')"
  by (simp_all add: parse_date_def example_world_def ascii_def)

lemma example_search_one:
  "search_apple_music example_world tr (ascii ''Artist A'') (ascii ''Album One'')
     = (None, tr @ [SearchRequest (ascii ''Artist A Album One'')])"
  by (simp add: search_apple_music_def example_world_def ascii_def)

lemma example_search_two:
  "search_apple_music example_world tr (ascii ''Artist B'') (ascii ''Album Two'')
     = (Some (ascii ''https://music.apple.com/us/album/two/2''),
        tr @ [SearchRequest (ascii ''Artist B Album Two'')])"
  by (simp add: search_apple_music_def example_world_def ascii_def)

lemma example_convert:
  "convert_url_to_album_link example_world tr u
     = (Some (ascii ''https://album.link/i/2''), tr @ [Sleep 6, ConvertRequest u])"
  by (simp add: convert_url_to_album_link_def example_world_def strip_country_def py_replace_def
      ascii_def)

lemma example_feed: "fetch_rss example_world = [entry_one, entry_two]"
  by (simp add: fetch_rss_def example_world_def)

lemma example_run:
  "process_feed clean_title example_world [] =
     Inr ([(ascii ''Artist A'', ascii ''Album One'', [], [], ascii ''2025-11-03''),
           (ascii ''Artist B'', ascii ''Album Two'', ascii ''https://album.link/i/2'',
            ascii ''https://music.apple.com/us/album/two/2'', ascii ''2025-11-02'')],
          [SearchRequest (ascii ''Artist A Album One''),
           SearchRequest (ascii ''Artist B Album Two''),
           Sleep 6,
           ConvertRequest (ascii ''https://music.apple.com/us/album/two/2'')])"
  by (simp add: process_feed_def example_feed process_entry_def example_entries example_dates
      example_titles example_search_one example_search_two example_convert optional_simps
      ascii_Cons_nonempty)

text \<open>
  The date of \<open>atom_entry\<close> is one that \<^verbatim>\<open>strptime\<close> refuses and that has no comma, so
  reading it raises.
\<close>

lemma atom_date_raises:
  "parse_date (strptime_ymd atom_world) (ascii ''2025-11-02T09:30:00.001-08:00'') = Inl IndexError"
proof -
  have "py_split [44] (ascii ''2025-11-02T09:30:00.001-08:00'')
      = [ascii ''2025-11-02T09:30:00.001-08:00'']"
    by (intro py_split_absent) (simp_all add: ascii_def flip: py_in_sublist add: py_in_single)
  then show ?thesis
    by (simp add: parse_date_def atom_world_def example_world_def ascii_Cons_nonempty)
       (simp add: ascii_def)
qed

text \<open>
  Claim C1 says that every entry whose title parses gets exactly one record, found or not.
  Once the title is reached the code does so (lemma \<open>process_entry_parsed\<close>), but the date
  of the entry is read first (lines 238 to 246, the title at line 249), and when that raises
  (the \<^verbatim>\<open>IndexError\<close> of claim C4) no record is appended although the title parses: the
  title of \<open>atom_entry\<close> parses to \<^verbatim>\<open>("Artist B", "Album Two")\<close> for both fetchers, yet the
  turn of the loop ends with the exception, and so does \<^verbatim>\<open>process_feed\<close> on the feed
  that holds the entry, without returning any record.
\<close>

theorem process_entry_parsed_title_not_appended:
  "clean_title (py_get atom_entry (ascii ''title'') [])
     = Some (ascii ''Artist B'', ascii ''Album Two'') \<and>
   process_entry clean_title atom_world ([], []) atom_entry = Inl IndexError \<and>
   jp_clean_title (py_get atom_entry (ascii ''title'') [])
     = Some (ascii ''Artist B'', ascii ''Album Two'') \<and>
   process_entry jp_clean_title atom_world ([], []) atom_entry = Inl IndexError \<and>
   fetch_rss atom_world = [entry_one, atom_entry] \<and>
   process_feed clean_title atom_world [] = Inl IndexError"
proof -
  have a: "clean_title (py_get atom_entry (ascii ''title'') [])
      = Some (ascii ''Artist B'', ascii ''Album Two'')"
    by (simp add: example_entries example_titles)
  have b: "process_entry clean w st atom_entry = Inl IndexError" if "w = atom_world" for clean w st
    unfolding that by (cases st) (simp add: process_entry_def example_entries atom_date_raises)
  have c: "jp_clean_title (py_get atom_entry (ascii ''title'') [])
      = Some (ascii ''Artist B'', ascii ''Album Two'')"
    unfolding example_entries by (simp add: jp_parser_defs)
  have feed: "fetch_rss atom_world = [entry_one, atom_entry]"
    by (simp add: fetch_rss_def atom_world_def)
  have one: "process_entry clean_title atom_world ([], []) entry_one
      = Inr ([(ascii ''Artist A'', ascii ''Album One'', [], [], ascii ''2025-11-03'')],
             [SearchRequest (ascii ''Artist A Album One'')])"
    using example_search_one [of "[]"] example_dates
    by (simp add: process_entry_def example_entries example_titles atom_world_def
        search_apple_music_def optional_simps)
  have d: "process_feed clean_title atom_world [] = Inl IndexError"
    by (simp add: process_feed_def feed one b)
  from a b [OF refl] c feed d show ?thesis by (intro conjI)
qed

section \<open>The feed processor, the whole feed\<close>

lemma process_entry_key:
  assumes "process_entry clean w (results, tr) entry = Inr (results', tr')"
  shows "map result_key results' = map result_key results @ entry_key clean w entry"
proof (cases "parse_date (strptime_ymd w) (py_get entry (ascii ''published'') [])")
  case (Inl err)
  with assms show ?thesis by (simp add: process_entry_def)
next
  case (Inr date_str)
  then have date: "entry_date w entry = date_str" by (simp add: entry_date_def)
  show ?thesis
  proof (cases "clean (py_get entry (ascii ''title'') [])")
    case None
    with Inr assms show ?thesis by (simp add: process_entry_def entry_key_def)
  next
    case (Some p)
    obtain artist album where p: "p = (artist, album)" by (cases p)
    from process_entry_appends_one [of w entry date_str clean artist album results tr]
      Inr Some p
    obtain album_link apple_link tr2 where
      "process_entry clean w (results, tr) entry =
         Inr (results @ [(artist, album, album_link, apple_link, date_str)], tr2)"
      by blast
    with assms have "results' = results @ [(artist, album, album_link, apple_link, date_str)]"
      by simp
    with Some p date show ?thesis by (simp add: entry_key_def result_key_def)
  qed
qed

lemma process_entries_key:
  "process_entries clean w (results, tr) entries = Inr (results', tr') \<Longrightarrow>
   map result_key results' = map result_key results @ concat (map (entry_key clean w) entries)"
proof (induction entries arbitrary: results tr)
  case Nil
  then show ?case by simp
next
  case (Cons entry entries)
  from Cons.prems obtain results1 tr1 where
    one: "process_entry clean w (results, tr) entry = Inr (results1, tr1)"
    and rest: "process_entries clean w (results1, tr1) entries = Inr (results', tr')"
    by (auto split: sum.splits)
  from process_entry_key [OF one] Cons.IH [OF rest] show ?case by simp
qed

lemma process_entry_returns:
  assumes "parse_date (strptime_ymd w) (py_get entry (ascii ''published'') []) \<noteq> Inl IndexError"
  shows "\<exists>st'. process_entry clean w st entry = Inr st'"
proof -
  obtain results tr where st: "st = (results, tr)" by (cases st)
  from assms obtain date_str where
    date: "parse_date (strptime_ymd w) (py_get entry (ascii ''published'') []) = Inr date_str"
    by (cases "parse_date (strptime_ymd w) (py_get entry (ascii ''published'') [])")
       (auto intro: py_error.exhaust)
  show ?thesis
  proof (cases "clean (py_get entry (ascii ''title'') [])")
    case None
    with date st show ?thesis by (simp add: process_entry_def)
  next
    case (Some p)
    obtain artist album where p: "p = (artist, album)" by (cases p)
    from process_entry_appends_one [of w entry date_str clean artist album results tr]
      date Some p st
    show ?thesis by blast
  qed
qed

lemma process_entries_returns:
  "\<forall>entry \<in> set entries.
      parse_date (strptime_ymd w) (py_get entry (ascii ''published'') []) \<noteq> Inl IndexError \<Longrightarrow>
   \<exists>st'. process_entries clean w st entries = Inr st'"
proof (induction entries arbitrary: st)
  case Nil
  then show ?case by simp
next
  case (Cons entry entries)
  then obtain st1 where "process_entry clean w st entry = Inr st1"
    using process_entry_returns [of w entry clean st] by auto
  with Cons show ?case by simp
qed

text \<open>
  Claim C8. The records \<^verbatim>\<open>process_feed\<close> returns are in the order of the feed: read as
  (artist, album, date), they are the entries whose title parses, one record each, in the
  order of the entries. And \<^verbatim>\<open>process_feed\<close> does return its records whenever no entry's
  date raises.
\<close>

theorem process_feed_preserves_order:
  "(\<forall>results tr'. process_feed clean w tr = Inr (results, tr') \<longrightarrow>
      map result_key results = concat (map (entry_key clean w) (fetch_rss w))) \<and>
   ((\<forall>entry \<in> set (fetch_rss w).
       parse_date (strptime_ymd w) (py_get entry (ascii ''published'') []) \<noteq> Inl IndexError) \<longrightarrow>
    (\<exists>results tr'. process_feed clean w tr = Inr (results, tr')))"
proof (intro conjI allI impI)
  fix results tr'
  assume "process_feed clean w tr = Inr (results, tr')"
  then show "map result_key results = concat (map (entry_key clean w) (fetch_rss w))"
    using process_entries_key [of clean w "[]" tr "fetch_rss w" results tr']
    by (simp add: process_feed_def)
next
  assume "\<forall>entry \<in> set (fetch_rss w).
       parse_date (strptime_ymd w) (py_get entry (ascii ''published'') []) \<noteq> Inl IndexError"
  then show "\<exists>results tr'. process_feed clean w tr = Inr (results, tr')"
    using process_entries_returns [of "fetch_rss w" w clean "([], tr)"]
    by (simp add: process_feed_def)
qed

theorem process_feed_preserves_order_witness:
  "parse_date (strptime_ymd example_world) (py_get entry_one (ascii ''published'') []) \<noteq> Inl IndexError \<and>
   parse_date (strptime_ymd example_world) (py_get entry_two (ascii ''published'') []) \<noteq> Inl IndexError \<and>
   (\<exists>results tr'. process_feed clean_title example_world [] = Inr (results, tr') \<and>
      map result_key results =
        concat (map (entry_key clean_title example_world) (fetch_rss example_world)) \<and>
      map result_key results =
        [(ascii ''Artist A'', ascii ''Album One'', ascii ''2025-11-03''),
         (ascii ''Artist B'', ascii ''Album Two'', ascii ''2025-11-02'')])"
proof -
  have d1: "parse_date (strptime_ymd example_world) (py_get entry_one (ascii ''published'') [])
      \<noteq> Inl IndexError"
    and d2: "parse_date (strptime_ymd example_world) (py_get entry_two (ascii ''published'') [])
      \<noteq> Inl IndexError"
    by (simp_all add: example_entries example_dates)
  then have "\<forall>entry \<in> set (fetch_rss example_world).
      parse_date (strptime_ymd example_world) (py_get entry (ascii ''published'') []) \<noteq> Inl IndexError"
    by (simp add: example_feed)
  with process_feed_preserves_order [of clean_title example_world "[]"]
  obtain results tr' where run: "process_feed clean_title example_world [] = Inr (results, tr')"
    and keys: "map result_key results =
        concat (map (entry_key clean_title example_world) (fetch_rss example_world))"
    by blast
  from run have "map result_key results =
        [(ascii ''Artist A'', ascii ''Album One'', ascii ''2025-11-03''),
         (ascii ''Artist B'', ascii ''Album Two'', ascii ''2025-11-02'')]"
    by (auto simp add: example_run result_key_def)
  with d1 d2 run keys show ?thesis by auto
qed

section \<open>The date of an entry\<close>

text \<open>
  Claim C4 says that reading the date never raises. The code does raise: for a date that
  is not empty, that \<^verbatim>\<open>strptime\<close> refuses and that has no comma, the handler's
  \<^verbatim>\<open>pub_date.split(',')[1]\<close> raises \<^verbatim>\<open>IndexError\<close>, and the turn of the loop, and with
  it \<^verbatim>\<open>process_feed\<close>, ends with that exception whatever the title is. (The format
  given to \<^verbatim>\<open>strptime\<close> has a comma in it, so \<^verbatim>\<open>strptime\<close> refuses every date without
  one, the ISO dates of an Atom feed among them.)
\<close>

theorem parse_date_raises_without_comma:
  "pub_date \<noteq> [] \<and> strptime pub_date = None \<and> 44 \<notin> set pub_date \<longrightarrow>
     parse_date strptime pub_date = Inl IndexError \<and>
     (\<forall>clean w st entry.
        strptime = strptime_ymd w \<and> py_get entry (ascii ''published'') [] = pub_date \<longrightarrow>
        process_entry clean w st entry = Inl IndexError)"
proof (intro impI conjI allI)
  assume a: "pub_date \<noteq> [] \<and> strptime pub_date = None \<and> 44 \<notin> set pub_date"
  then have "py_split [44] pub_date = [pub_date]"
    by (intro py_split_absent) (simp_all add: flip: py_in_sublist add: py_in_single)
  with a show raise: "parse_date strptime pub_date = Inl IndexError"
    by (simp add: parse_date_def)
  fix clean and w :: world and st :: "result list \<times> event list" and entry :: entry
  assume "strptime = strptime_ymd w \<and> py_get entry (ascii ''published'') [] = pub_date"
  with raise show "process_entry clean w st entry = Inl IndexError"
    by (cases st) (simp add: process_entry_def)
qed

theorem parse_date_raises_without_comma_witness:
  "ascii ''2025-11-02T09:30:00.001-08:00'' \<noteq> [] \<and>
   strptime_ymd atom_world (ascii ''2025-11-02T09:30:00.001-08:00'') = None \<and>
   44 \<notin> set (ascii ''2025-11-02T09:30:00.001-08:00'') \<and>
   py_get atom_entry (ascii ''published'') [] = ascii ''2025-11-02T09:30:00.001-08:00'' \<and>
   parse_date (strptime_ymd atom_world) (ascii ''2025-11-02T09:30:00.001-08:00'') = Inl IndexError \<and>
   process_entry clean_title atom_world
     ([(ascii ''Artist A'', ascii ''Album One'', [], [], ascii ''2025-11-03'')],
      [SearchRequest (ascii ''Artist A Album One'')]) atom_entry = Inl IndexError \<and>
   process_feed clean_title atom_world [] = Inl IndexError"
proof -
  have h: "ascii ''2025-11-02T09:30:00.001-08:00'' \<noteq> [] \<and>
      strptime_ymd atom_world (ascii ''2025-11-02T09:30:00.001-08:00'') = None \<and>
      44 \<notin> set (ascii ''2025-11-02T09:30:00.001-08:00'')"
    by (simp add: atom_world_def example_world_def ascii_def)
  have e: "py_get atom_entry (ascii ''published'') [] = ascii ''2025-11-02T09:30:00.001-08:00''"
    by (simp add: example_entries)
  from parse_date_raises_without_comma
    [of "ascii ''2025-11-02T09:30:00.001-08:00''" "strptime_ymd atom_world"] h e
  have p: "parse_date (strptime_ymd atom_world) (ascii ''2025-11-02T09:30:00.001-08:00'') = Inl IndexError"
    and q: "process_entry clean_title atom_world st atom_entry = Inl IndexError" for st
    by blast+
  have one: "process_entry clean_title atom_world ([], []) entry_one
      = Inr ([(ascii ''Artist A'', ascii ''Album One'', [], [], ascii ''2025-11-03'')],
             [SearchRequest (ascii ''Artist A Album One'')])"
    using example_search_one [of "[]"] example_dates
    by (simp add: process_entry_def example_entries example_titles atom_world_def
        search_apple_music_def optional_simps)
  have feed: "fetch_rss atom_world = [entry_one, atom_entry]"
    by (simp add: fetch_rss_def atom_world_def)
  have "process_feed clean_title atom_world [] = Inl IndexError"
    by (simp add: process_feed_def feed one q)
  with h e p q show ?thesis by auto
qed

section \<open>The Markdown renderer\<close>

text \<open>
  Claim C5 says that an empty link field is rendered without a link. The code renders
  both labels as links whatever the fields hold: a record with two empty link fields gets
  \<^verbatim>\<open>[[All]()] [[Apple]()]\<close>, two links with an empty target.
\<close>

theorem markdown_line_empty_links:
  "markdown_line (artist, album, [], [], date) =
     ascii ''- **'' @ artist @ [32, 8212, 32] @ album @ ascii ''** [[All]()] [[Apple]()]'' @
     (if date \<noteq> [] then ascii '' _'' @ date @ ascii ''_'' else []) @ [10] \<and>
   generate_markdown [(ascii ''Artist A'', ascii ''Album One'', [], [], [])] =
     [35, 35, 32, 127926, 32] @ ascii ''New Jazz Albums'' @ [10, 10] @
     ascii ''_Links: [All Platforms] | [Apple Music]_'' @ [10, 10] @
     ascii ''- **Artist A'' @ [32, 8212, 32] @ ascii ''Album One** [[All]()] [[Apple]()]'' @ [10]"
  by (simp add: markdown_line_def generate_markdown_def ascii_def)

section \<open>The CSV round trip\<close>

text \<open>The inputs of the state machine, read off the text.\<close>

lemma inputs_of_newline: "inputs_of b (10 # s) = Ch 10 # EOL # inputs_of False s"
  by (cases s) simp_all

lemma inputs_of_lines_from:
  "concat (map (\<lambda>l. map Ch l @ [EOL]) (lines_from cur s)) = map Ch cur @ inputs_of (cur \<noteq> []) s"
  by (induction cur s rule: lines_from.induct) (auto simp add: inputs_of_newline)

lemma inputs_of_py_lines:
  "concat (map (\<lambda>l. map Ch l @ [EOL]) (py_lines text)) = inputs_of False text"
  by (simp add: py_lines_def inputs_of_lines_from)

lemma run_line:
  "run limit r (map Ch line @ EOL # rest) =
     (case process_inputs limit r (map Ch line @ [EOL]) of
        Inl e \<Rightarrow> Inl e
      | Inr r' \<Rightarrow>
          if p_state r' = START_RECORD
          then prepend_row (p_fields r') (run limit parse_reset rest)
          else run limit r' rest)"
  by (induction line arbitrary: r) (auto split: sum.splits)

lemma read_rows_run:
  "read_rows limit r lines =
     (case run limit r (concat (map (\<lambda>l. map Ch l @ [EOL]) lines)) of
        Inl e \<Rightarrow> Inl e
      | Inr (rows, rf) \<Rightarrow>
          Inr (rows @ (if p_field rf \<noteq> [] \<or> p_state rf = IN_QUOTED_FIELD
                       then [p_fields (parse_save_field rf)] else [])))"
proof (induction lines arbitrary: r)
  case Nil
  then show ?case by simp
next
  case (Cons line lines)
  show ?case
    by (simp add: run_line Cons.IH prepend_row_def split: sum.splits prod.splits)
qed

lemma csv_reader_run:
  "csv_reader limit text =
     (case run limit parse_reset (inputs_of False text) of
        Inl e \<Rightarrow> Inl e
      | Inr (rows, rf) \<Rightarrow>
          Inr (rows @ (if p_field rf \<noteq> [] \<or> p_state rf = IN_QUOTED_FIELD
                       then [p_fields (parse_save_field rf)] else [])))"
  by (simp add: csv_reader_def read_rows_run inputs_of_py_lines)

lemma inputs_of_irrelevant: "s \<noteq> [] \<Longrightarrow> inputs_of False s = inputs_of True s"
proof (cases s)
  case Nil
  then show "s \<noteq> [] \<Longrightarrow> ?thesis" by simp
next
  case (Cons x xs)
  then show ?thesis by (cases xs) simp_all
qed

lemma inputs_of_plain:
  "x \<noteq> 10 \<Longrightarrow> x \<noteq> 13 \<Longrightarrow> s \<noteq> [] \<Longrightarrow> inputs_of b (x # s) = Ch x # inputs_of True s"
  by (cases s) simp_all

lemma inputs_of_return:
  "s \<noteq> [] \<Longrightarrow>
   inputs_of b (13 # s) = (if hd s = 10 then Ch 13 # inputs_of True s else Ch 13 # EOL # inputs_of True s)"
  by (cases s) (simp_all add: inputs_of_irrelevant)

lemma inputs_of_newline_True:
  "s \<noteq> [] \<Longrightarrow> inputs_of b (10 # s) = Ch 10 # EOL # inputs_of True s"
  by (simp add: inputs_of_newline inputs_of_irrelevant)

lemma run_Ch:
  "run limit r (Ch x # cs) =
     (case parse_process_char limit r (Ch x) of Inl e \<Rightarrow> Inl e | Inr r' \<Rightarrow> run limit r' cs)"
  by (simp split: sum.splits)

lemma run_EOL:
  "run limit r (EOL # cs) =
     (case parse_process_char limit r EOL of
        Inl e \<Rightarrow> Inl e
      | Inr r' \<Rightarrow>
          if p_state r' = START_RECORD
          then prepend_row (p_fields r') (run limit parse_reset cs)
          else run limit r' cs)"
  by (simp split: sum.splits)

declare run.simps(2) [simp del]

lemma csv_body_Cons: "csv_body (c # g) = (if c = 34 then [34, 34] else [c]) @ csv_body g"
  by (simp add: csv_body_def)

lemma csv_body_Nil: "csv_body [] = []"
  by (simp add: csv_body_def)

text \<open>The steps of the state machine that reading a written file takes.\<close>

lemma step_quoted_char:
  "x \<noteq> 34 \<Longrightarrow> length cur < limit \<Longrightarrow>
   parse_process_char limit \<lparr>p_state = IN_QUOTED_FIELD, p_fields = fs, p_field = cur\<rparr> (Ch x)
     = Inr \<lparr>p_state = IN_QUOTED_FIELD, p_fields = fs, p_field = cur @ [x]\<rparr>"
  by (simp add: parse_process_char_def parse_add_char_def)

lemma step_quoted_EOL:
  "parse_process_char limit \<lparr>p_state = IN_QUOTED_FIELD, p_fields = fs, p_field = cur\<rparr> EOL
     = Inr \<lparr>p_state = IN_QUOTED_FIELD, p_fields = fs, p_field = cur\<rparr>"
  by (simp add: parse_process_char_def)

lemma step_quoted_quote:
  "parse_process_char limit \<lparr>p_state = IN_QUOTED_FIELD, p_fields = fs, p_field = cur\<rparr> (Ch 34)
     = Inr \<lparr>p_state = QUOTE_IN_QUOTED_FIELD, p_fields = fs, p_field = cur\<rparr>"
  by (simp add: parse_process_char_def)

lemma step_quote_quote:
  "length cur < limit \<Longrightarrow>
   parse_process_char limit \<lparr>p_state = QUOTE_IN_QUOTED_FIELD, p_fields = fs, p_field = cur\<rparr> (Ch 34)
     = Inr \<lparr>p_state = IN_QUOTED_FIELD, p_fields = fs, p_field = cur @ [34]\<rparr>"
  by (simp add: parse_process_char_def parse_add_char_def)

lemma step_quote_comma:
  "parse_process_char limit \<lparr>p_state = QUOTE_IN_QUOTED_FIELD, p_fields = fs, p_field = cur\<rparr> (Ch 44)
     = Inr \<lparr>p_state = START_FIELD, p_fields = fs @ [cur], p_field = []\<rparr>"
  by (simp add: parse_process_char_def parse_save_field_def)

lemma step_quote_return:
  "parse_process_char limit \<lparr>p_state = QUOTE_IN_QUOTED_FIELD, p_fields = fs, p_field = cur\<rparr> (Ch 13)
     = Inr \<lparr>p_state = EAT_CRNL, p_fields = fs @ [cur], p_field = []\<rparr>"
  by (simp add: parse_process_char_def parse_save_field_def)

lemma step_field_char:
  "x \<noteq> 10 \<Longrightarrow> x \<noteq> 13 \<Longrightarrow> x \<noteq> 44 \<Longrightarrow> length cur < limit \<Longrightarrow>
   parse_process_char limit \<lparr>p_state = IN_FIELD, p_fields = fs, p_field = cur\<rparr> (Ch x)
     = Inr \<lparr>p_state = IN_FIELD, p_fields = fs, p_field = cur @ [x]\<rparr>"
  by (simp add: parse_process_char_def parse_add_char_def)

lemma step_field_comma:
  "parse_process_char limit \<lparr>p_state = IN_FIELD, p_fields = fs, p_field = cur\<rparr> (Ch 44)
     = Inr \<lparr>p_state = START_FIELD, p_fields = fs @ [cur], p_field = []\<rparr>"
  by (simp add: parse_process_char_def parse_save_field_def)

lemma step_field_return:
  "parse_process_char limit \<lparr>p_state = IN_FIELD, p_fields = fs, p_field = cur\<rparr> (Ch 13)
     = Inr \<lparr>p_state = EAT_CRNL, p_fields = fs @ [cur], p_field = []\<rparr>"
  by (simp add: parse_process_char_def parse_save_field_def)

lemma step_start_quote:
  "parse_process_char limit \<lparr>p_state = START_FIELD, p_fields = fs, p_field = []\<rparr> (Ch 34)
     = Inr \<lparr>p_state = IN_QUOTED_FIELD, p_fields = fs, p_field = []\<rparr>"
  by (simp add: parse_process_char_def start_field_def)

lemma step_start_comma:
  "parse_process_char limit \<lparr>p_state = START_FIELD, p_fields = fs, p_field = []\<rparr> (Ch 44)
     = Inr \<lparr>p_state = START_FIELD, p_fields = fs @ [[]], p_field = []\<rparr>"
  by (simp add: parse_process_char_def start_field_def parse_save_field_def)

lemma step_start_return:
  "parse_process_char limit \<lparr>p_state = START_FIELD, p_fields = fs, p_field = []\<rparr> (Ch 13)
     = Inr \<lparr>p_state = EAT_CRNL, p_fields = fs @ [[]], p_field = []\<rparr>"
  by (simp add: parse_process_char_def start_field_def parse_save_field_def)

lemma step_start_char:
  "x \<noteq> 10 \<Longrightarrow> x \<noteq> 13 \<Longrightarrow> x \<noteq> 44 \<Longrightarrow> x \<noteq> 34 \<Longrightarrow> 0 < limit \<Longrightarrow>
   parse_process_char limit \<lparr>p_state = START_FIELD, p_fields = fs, p_field = []\<rparr> (Ch x)
     = Inr \<lparr>p_state = IN_FIELD, p_fields = fs, p_field = [x]\<rparr>"
  by (simp add: parse_process_char_def start_field_def parse_add_char_def)

lemma step_record:
  "x \<noteq> 10 \<Longrightarrow> x \<noteq> 13 \<Longrightarrow>
   parse_process_char limit \<lparr>p_state = START_RECORD, p_fields = fs, p_field = cur\<rparr> (Ch x)
     = parse_process_char limit \<lparr>p_state = START_FIELD, p_fields = fs, p_field = cur\<rparr> (Ch x)"
  by (simp add: parse_process_char_def)

lemma step_record_return:
  "parse_process_char limit \<lparr>p_state = START_RECORD, p_fields = fs, p_field = cur\<rparr> (Ch 13)
     = Inr \<lparr>p_state = EAT_CRNL, p_fields = fs, p_field = cur\<rparr>"
  by (simp add: parse_process_char_def)

lemma step_eat_newline:
  "parse_process_char limit \<lparr>p_state = EAT_CRNL, p_fields = fs, p_field = cur\<rparr> (Ch 10)
     = Inr \<lparr>p_state = EAT_CRNL, p_fields = fs, p_field = cur\<rparr>"
  by (simp add: parse_process_char_def)

lemma step_eat_EOL:
  "parse_process_char limit \<lparr>p_state = EAT_CRNL, p_fields = fs, p_field = cur\<rparr> EOL
     = Inr \<lparr>p_state = START_RECORD, p_fields = fs, p_field = cur\<rparr>"
  by (simp add: parse_process_char_def)

lemmas steps =
  step_quoted_char step_quoted_EOL step_quoted_quote step_quote_quote step_quote_comma
  step_quote_return step_field_char step_field_comma step_field_return step_start_quote
  step_start_comma step_start_return step_start_char step_eat_newline step_eat_EOL

lemma run_quoted_body:
  assumes "rest \<noteq> []"
  shows "length cur + length g \<le> limit \<Longrightarrow>
     run limit \<lparr>p_state = IN_QUOTED_FIELD, p_fields = fs, p_field = cur\<rparr>
       (inputs_of b (csv_body g @ 34 # rest)) =
     run limit \<lparr>p_state = QUOTE_IN_QUOTED_FIELD, p_fields = fs, p_field = cur @ g\<rparr>
       (inputs_of True rest)"
proof (induction g arbitrary: cur b)
  case Nil
  with assms show ?case
    by (simp add: csv_body_Nil inputs_of_plain run_Ch steps)
next
  case (Cons c g)
  have tail: "csv_body g @ 34 # rest \<noteq> []" by simp
  from Cons.prems have len: "length cur < limit" "length (cur @ [c]) + length g \<le> limit"
    by simp_all
  note IH = Cons.IH [OF len(2), of True]
  consider (quote) "c = 34" | (lf) "c = 10" | (cr) "c = 13" | (plain) "c \<noteq> 34" "c \<noteq> 10" "c \<noteq> 13"
    by blast
  then show ?case
  proof cases
    case quote
    with len(1) IH show ?thesis
      by (simp add: csv_body_Cons inputs_of_plain run_Ch steps)
  next
    case lf
    with len(1) IH show ?thesis
      by (simp add: csv_body_Cons inputs_of_newline_True [OF tail] run_Ch run_EOL steps)
  next
    case cr
    with len(1) IH show ?thesis
      by (simp add: csv_body_Cons inputs_of_return [OF tail] run_Ch run_EOL steps)
  next
    case plain
    with len(1) IH show ?thesis
      by (simp add: csv_body_Cons inputs_of_plain [OF _ _ tail] run_Ch steps)
  qed
qed

lemma run_plain:
  assumes "rest \<noteq> []"
  shows "\<not> list_ex csv_special g \<Longrightarrow> length cur + length g \<le> limit \<Longrightarrow>
     run limit \<lparr>p_state = IN_FIELD, p_fields = fs, p_field = cur\<rparr> (inputs_of True (g @ rest)) =
     run limit \<lparr>p_state = IN_FIELD, p_fields = fs, p_field = cur @ g\<rparr> (inputs_of True rest)"
proof (induction g arbitrary: cur)
  case Nil
  then show ?case by simp
next
  case (Cons c g)
  from Cons.prems have "\<not> csv_special c" and g: "\<not> list_ex csv_special g"
    and len: "length cur < limit" "length (cur @ [c]) + length g \<le> limit"
    by simp_all
  then have c: "c \<noteq> 44" "c \<noteq> 34" "c \<noteq> 13" "c \<noteq> 10"
    by (simp_all add: csv_special_def)
  from assms have tail: "g @ rest \<noteq> []" by simp
  from c len(1) Cons.IH [OF g len(2)] show ?case
    by (simp add: inputs_of_plain [OF _ _ tail] run_Ch steps)
qed

lemma csv_body_plain: "\<not> list_ex csv_special g \<Longrightarrow> csv_body g = g"
proof (induction g)
  case Nil
  then show ?case by (simp add: csv_body_Nil)
next
  case (Cons c g)
  then have "\<not> csv_special c" and "csv_body g = g" by simp_all
  then show ?case by (simp add: csv_body_Cons csv_special_def)
qed

lemma inputs_of_terminator:
  "inputs_of b (13 # 10 # rest) = Ch 13 # Ch 10 # EOL # inputs_of False rest"
  by (simp add: inputs_of_newline)

lemma run_terminator:
  "run limit \<lparr>p_state = EAT_CRNL, p_fields = fs, p_field = []\<rparr> (EOL # cs) =
     prepend_row fs (run limit parse_reset cs)"
  by (simp add: run_Ch run_EOL steps)

text \<open>A field and the delimiter behind it.\<close>

lemma run_field_comma:
  assumes "rest \<noteq> []" and "length f \<le> limit"
  shows "run limit \<lparr>p_state = START_FIELD, p_fields = fs, p_field = []\<rparr>
       (inputs_of True (csv_field f @ 44 # rest)) =
     run limit \<lparr>p_state = START_FIELD, p_fields = fs @ [f], p_field = []\<rparr> (inputs_of True rest)"
proof (cases "list_ex csv_special f")
  case True
  have "run limit \<lparr>p_state = IN_QUOTED_FIELD, p_fields = fs, p_field = []\<rparr>
       (inputs_of True (csv_body f @ 34 # 44 # rest)) =
     run limit \<lparr>p_state = QUOTE_IN_QUOTED_FIELD, p_fields = fs, p_field = [] @ f\<rparr>
       (inputs_of True (44 # rest))"
    using assms by (intro run_quoted_body) simp_all
  with True assms(1) show ?thesis
    by (simp add: csv_field_def inputs_of_plain run_Ch steps)
next
  case False
  show ?thesis
  proof (cases f)
    case Nil
    with assms(1) show ?thesis
      by (simp add: csv_field_def csv_body_Nil inputs_of_plain run_Ch steps)
  next
    case (Cons c g)
    with False have "\<not> csv_special c" and g: "\<not> list_ex csv_special g" by simp_all
    then have c: "c \<noteq> 44" "c \<noteq> 34" "c \<noteq> 13" "c \<noteq> 10" by (simp_all add: csv_special_def)
    from assms Cons have len: "0 < limit" "length [c] + length g \<le> limit" by simp_all
    have "run limit \<lparr>p_state = IN_FIELD, p_fields = fs, p_field = [c]\<rparr>
        (inputs_of True (g @ 44 # rest)) =
      run limit \<lparr>p_state = IN_FIELD, p_fields = fs, p_field = [c] @ g\<rparr> (inputs_of True (44 # rest))"
      using g len(2) by (intro run_plain) simp_all
    with c len(1) Cons False assms(1) show ?thesis
      by (simp add: csv_field_def csv_body_plain inputs_of_plain run_Ch steps)
  qed
qed

text \<open>The last field of a row and the line terminator behind it.\<close>

lemma run_field_end:
  assumes "length f \<le> limit"
  shows "run limit \<lparr>p_state = START_FIELD, p_fields = fs, p_field = []\<rparr>
       (inputs_of True (csv_field f @ 13 # 10 # rest)) =
     prepend_row (fs @ [f]) (run limit parse_reset (inputs_of False rest))"
proof (cases "list_ex csv_special f")
  case True
  have "run limit \<lparr>p_state = IN_QUOTED_FIELD, p_fields = fs, p_field = []\<rparr>
       (inputs_of True (csv_body f @ 34 # 13 # 10 # rest)) =
     run limit \<lparr>p_state = QUOTE_IN_QUOTED_FIELD, p_fields = fs, p_field = [] @ f\<rparr>
       (inputs_of True (13 # 10 # rest))"
    using assms by (intro run_quoted_body) simp_all
  with True show ?thesis
    by (simp add: csv_field_def inputs_of_plain inputs_of_terminator inputs_of_newline run_Ch steps run_terminator)
next
  case False
  show ?thesis
  proof (cases f)
    case Nil
    show ?thesis unfolding Nil
      by (simp add: csv_field_def csv_body_Nil inputs_of_terminator inputs_of_newline run_Ch steps run_terminator)
  next
    case (Cons c g)
    with False have "\<not> csv_special c" and g: "\<not> list_ex csv_special g" by simp_all
    then have c: "c \<noteq> 44" "c \<noteq> 34" "c \<noteq> 13" "c \<noteq> 10" by (simp_all add: csv_special_def)
    from assms Cons have len: "0 < limit" "length [c] + length g \<le> limit" by simp_all
    have "run limit \<lparr>p_state = IN_FIELD, p_fields = fs, p_field = [c]\<rparr>
        (inputs_of True (g @ 13 # 10 # rest)) =
      run limit \<lparr>p_state = IN_FIELD, p_fields = fs, p_field = [c] @ g\<rparr>
        (inputs_of True (13 # 10 # rest))"
      using g len(2) by (intro run_plain) simp_all
    with c len(1) Cons False show ?thesis
      by (simp add: csv_field_def csv_body_plain inputs_of_plain inputs_of_terminator inputs_of_newline run_Ch steps
          run_terminator)
  qed
qed

lemma run_fields:
  "\<forall>f \<in> set (f0 # gs). length f \<le> limit \<Longrightarrow>
   run limit \<lparr>p_state = START_FIELD, p_fields = fs, p_field = []\<rparr>
     (inputs_of True (py_join [44] (map csv_field (f0 # gs)) @ 13 # 10 # rest)) =
   prepend_row (fs @ f0 # gs) (run limit parse_reset (inputs_of False rest))"
proof (induction gs arbitrary: f0 fs)
  case Nil
  then show ?case by (simp add: run_field_end)
next
  case (Cons f1 gs)
  from Cons.prems have f0: "length f0 \<le> limit" and rest: "\<forall>f \<in> set (f1 # gs). length f \<le> limit"
    by simp_all
  have "run limit \<lparr>p_state = START_FIELD, p_fields = fs, p_field = []\<rparr>
     (inputs_of True (csv_field f0 @ 44 # (py_join [44] (map csv_field (f1 # gs)) @ 13 # 10 # rest))) =
     run limit \<lparr>p_state = START_FIELD, p_fields = fs @ [f0], p_field = []\<rparr>
     (inputs_of True (py_join [44] (map csv_field (f1 # gs)) @ 13 # 10 # rest))"
    using f0 by (intro run_field_comma) simp_all
  with Cons.IH [OF rest, of "fs @ [f0]"] show ?case by simp
qed

lemma inputs_of_Cons: "\<exists>cs. inputs_of b (x # s) = Ch x # cs"
proof (cases s)
  case Nil
  then show ?thesis by simp
next
  case (Cons y ys)
  then show ?thesis by simp
qed

lemma run_record_start:
  assumes "x \<noteq> 10" "x \<noteq> 13"
  shows "run limit parse_reset (inputs_of b (x # s)) =
         run limit \<lparr>p_state = START_FIELD, p_fields = [], p_field = []\<rparr> (inputs_of b (x # s))"
proof -
  obtain cs where "inputs_of b (x # s) = Ch x # cs" using inputs_of_Cons by blast
  with assms show ?thesis by (simp add: run_Ch parse_reset_def step_record)
qed

lemma csv_field_first:
  "csv_field f = [] \<or> (\<exists>x s. csv_field f = x # s \<and> x \<noteq> 10 \<and> x \<noteq> 13)"
proof (cases "list_ex csv_special f")
  case True
  then show ?thesis by (simp add: csv_field_def)
next
  case False
  show ?thesis
  proof (cases f)
    case Nil
    then show ?thesis by (simp add: csv_field_def csv_body_Nil)
  next
    case (Cons c g)
    with False have "\<not> csv_special c" and "\<not> list_ex csv_special f" by simp_all
    with Cons show ?thesis by (simp add: csv_field_def csv_body_plain csv_special_def)
  qed
qed

lemma csv_field_empty: "csv_field f = [] \<longleftrightarrow> f = []"
proof (cases "list_ex csv_special f")
  case True
  then show ?thesis by (auto simp add: csv_field_def)
next
  case False
  then show ?thesis by (simp add: csv_field_def csv_body_plain)
qed

lemma run_row:
  assumes "\<forall>f \<in> set row. length f \<le> limit"
  shows "run limit parse_reset (inputs_of b (writerow row @ rest)) =
         prepend_row row (run limit parse_reset (inputs_of False rest))"
proof (cases row)
  case Nil
  show ?thesis unfolding Nil
    by (simp add: writerow_def inputs_of_terminator inputs_of_newline parse_reset_def run_Ch run_EOL
        step_record_return steps)
next
  case (Cons f0 gs)
  show ?thesis
  proof (cases "row = [[]]")
    case True
    show ?thesis unfolding True
      by (simp add: writerow_def inputs_of_terminator inputs_of_newline inputs_of_plain parse_reset_def
          run_Ch run_EOL step_record steps)
  next
    case False
    let ?s = "py_join [44] (map csv_field (f0 # gs)) @ 13 # 10 # rest"
    have "\<exists>x s. ?s = x # s \<and> x \<noteq> 10 \<and> x \<noteq> 13"
    proof (cases gs)
      case Nil
      with False Cons have "f0 \<noteq> []" by simp
      with csv_field_first [of f0] csv_field_empty [of f0] Nil show ?thesis by auto
    next
      case (Cons f1 hs)
      with csv_field_first [of f0] show ?thesis by auto
    qed
    then obtain x s where s: "?s = x # s" and x: "x \<noteq> 10" "x \<noteq> 13" by blast
    have b: "inputs_of b ?s = inputs_of True ?s"
      by (cases b) (simp_all add: inputs_of_irrelevant)
    have start: "run limit parse_reset (inputs_of True ?s) =
        run limit \<lparr>p_state = START_FIELD, p_fields = [], p_field = []\<rparr> (inputs_of True ?s)"
      unfolding s using x by (rule run_record_start)
    have "run limit \<lparr>p_state = START_FIELD, p_fields = [], p_field = []\<rparr> (inputs_of True ?s) =
        prepend_row ([] @ f0 # gs) (run limit parse_reset (inputs_of False rest))"
      using assms Cons by (intro run_fields) simp
    with start have "run limit parse_reset (inputs_of b ?s) =
        prepend_row (f0 # gs) (run limit parse_reset (inputs_of False rest))"
      unfolding b by simp
    moreover from False Cons have "writerow row @ rest = ?s" by (auto simp add: writerow_def)
    ultimately show ?thesis unfolding Cons by simp
  qed
qed

lemma run_rows:
  "\<forall>row \<in> set rows. \<forall>f \<in> set row. length f \<le> limit \<Longrightarrow>
   run limit parse_reset (inputs_of False (concat (map writerow rows))) = Inr (rows, parse_reset)"
proof (induction rows)
  case Nil
  then show ?case by simp
next
  case (Cons row rows)
  then have "\<forall>f \<in> set row. length f \<le> limit"
    and "run limit parse_reset (inputs_of False (concat (map writerow rows))) = Inr (rows, parse_reset)"
    by simp_all
  then show ?case by (simp add: run_row prepend_row_def)
qed

lemma csv_reader_writerows:
  assumes "\<forall>row \<in> set rows. \<forall>f \<in> set row. length f \<le> limit"
  shows "csv_reader limit (concat (map writerow rows)) = Inr rows"
  unfolding csv_reader_run run_rows [OF assms] by (simp add: parse_reset_def)


text \<open>What is written: every row goes to the file when its fields can be encoded.\<close>

lemma result_row_fields:
  "result_row = (\<lambda>(artist, album, album_link, apple_link, date).
     [artist, album, album_link, apple_link, date])"
  by (simp add: fun_eq_iff result_row_def)

lemma writerow_csv_header:
  "writerow csv_header = ascii ''artist,album,album_link,apple_music_link,date'' @ [13, 10]"
  by (simp add: writerow_def csv_header_def csv_field_def csv_body_def csv_special_def ascii_def)

lemma csv_field_encodable:
  assumes "list_all utf8_encodable f"
  shows "list_all utf8_encodable (csv_field f)"
proof -
  have quote: "utf8_encodable 34" by (simp add: utf8_encodable_def)
  from assms have "list_all utf8_encodable (csv_body f)"
    by (induction f) (simp_all add: csv_body_Nil csv_body_Cons quote)
  with quote show ?thesis by (simp add: csv_field_def)
qed

lemma py_join_encodable:
  "\<forall>p \<in> set ps. list_all utf8_encodable p \<Longrightarrow> list_all utf8_encodable (py_join [44] ps)"
  by (induction "[44 :: nat]" ps rule: py_join.induct) (simp_all add: utf8_encodable_def)

lemma writerow_encodable:
  assumes "\<forall>f \<in> set row. list_all utf8_encodable f"
  shows "list_all utf8_encodable (writerow row)"
proof -
  from assms have "\<forall>p \<in> set (map csv_field row). list_all utf8_encodable p"
    by (simp add: csv_field_encodable)
  then have "list_all utf8_encodable (py_join [44] (map csv_field row))"
    by (rule py_join_encodable)
  then show ?thesis by (simp add: writerow_def utf8_encodable_def)
qed

lemma write_rows_encodable:
  "\<forall>row \<in> set rows. \<forall>f \<in> set row. list_all utf8_encodable f \<Longrightarrow>
   write_rows written rows = Inr (written @ concat (map writerow rows))"
proof (induction rows arbitrary: written)
  case Nil
  then show ?case by simp
next
  case (Cons row rows)
  then have "list_all utf8_encodable (writerow row)"
    by (intro writerow_encodable) simp
  with Cons show ?case by (simp add: file_write_def)
qed

lemma generate_csv_encodable:
  assumes "\<forall>row \<in> set (map result_row results). \<forall>f \<in> set row. list_all utf8_encodable f"
  shows "generate_csv results = Inr (concat (map writerow (csv_header # map result_row results)))"
proof -
  have "list_all utf8_encodable (writerow csv_header)"
    unfolding writerow_csv_header by (simp add: ascii_def utf8_encodable_def)
  with write_rows_encodable [OF assms] show ?thesis
    by (simp add: generate_csv_def file_write_def)
qed

text \<open>A field of more characters than the limit: the reader refuses it.\<close>

lemma run_field_too_long:
  assumes "0 < limit" and "rest \<noteq> []"
  shows "run limit parse_reset (inputs_of b (replicate (Suc limit) 97 @ rest))
           = Inl FieldLargerThanLimit"
proof -
  obtain n where n: "limit = Suc n" using assms(1) by (cases limit) simp_all
  have shape: "replicate (Suc limit) 97 @ rest = 97 # (replicate n 97 @ 97 # rest)"
    unfolding n by (simp add: replicate_append_same)
  have plain: "\<not> list_ex csv_special (replicate n 97)"
    by (simp add: list_ex_iff csv_special_def)
  have "run limit \<lparr>p_state = IN_FIELD, p_fields = [], p_field = [97]\<rparr>
          (inputs_of True (replicate n 97 @ 97 # rest)) =
        run limit \<lparr>p_state = IN_FIELD, p_fields = [], p_field = [97] @ replicate n 97\<rparr>
          (inputs_of True (97 # rest))"
    using plain by (intro run_plain) (simp_all add: n)
  also have "\<dots> = Inl FieldLargerThanLimit"
    using assms(2)
    by (simp add: inputs_of_plain run_Ch parse_process_char_def parse_add_char_def n)
  finally have field: "run limit \<lparr>p_state = IN_FIELD, p_fields = [], p_field = [97]\<rparr>
          (inputs_of True (replicate n 97 @ 97 # rest)) = Inl FieldLargerThanLimit" .
  have "run limit parse_reset (inputs_of b (97 # (replicate n 97 @ 97 # rest))) =
        run limit \<lparr>p_state = START_FIELD, p_fields = [], p_field = []\<rparr>
          (inputs_of b (97 # (replicate n 97 @ 97 # rest)))"
    by (rule run_record_start) simp_all
  also have "\<dots> = run limit \<lparr>p_state = IN_FIELD, p_fields = [], p_field = [97]\<rparr>
          (inputs_of True (replicate n 97 @ 97 # rest))"
    using assms(1) by (simp add: inputs_of_plain run_Ch steps)
  finally show ?thesis unfolding shape field .
qed

lemma csv_round_trip_field_too_long:
  assumes "16 \<le> limit"
  shows "csv_round_trip limit [(replicate (Suc limit) 97, [], [], [], [])]
           = Inl (ReadError FieldLargerThanLimit)"
proof -
  let ?rest = "[44, 44, 44, 44, 13, 10 :: nat]"
  have plain: "\<not> list_ex csv_special (replicate (Suc limit) 97)"
    by (simp add: list_ex_iff csv_special_def)
  have row: "writerow (result_row (replicate (Suc limit) 97, [], [], [], []))
      = replicate (Suc limit) 97 @ ?rest"
    using plain
    by (simp add: writerow_def result_row_def csv_field_def csv_body_plain csv_body_Nil
        del: replicate_Suc)
  have "\<forall>row \<in> set (map result_row [(replicate (Suc limit) 97, [], [], [], [])]).
      \<forall>f \<in> set row. list_all utf8_encodable f"
    by (simp add: result_row_def list_all_iff utf8_encodable_def del: replicate_Suc)
  from generate_csv_encodable [OF this]
  have written: "generate_csv [(replicate (Suc limit) 97, [], [], [], [])]
      = Inr (writerow csv_header @ (replicate (Suc limit) 97 @ ?rest))"
    by (simp add: row del: replicate_Suc)
  have header: "\<forall>f \<in> set csv_header. length f \<le> limit"
    using assms by (simp add: csv_header_def ascii_def)
  have "run limit parse_reset
      (inputs_of False (writerow csv_header @ (replicate (Suc limit) 97 @ ?rest))) =
      prepend_row csv_header
        (run limit parse_reset (inputs_of False (replicate (Suc limit) 97 @ ?rest)))"
    using header by (rule run_row)
  also have "\<dots> = Inl FieldLargerThanLimit"
    using assms by (simp add: run_field_too_long prepend_row_def del: replicate_Suc)
  finally have "csv_reader limit (writerow csv_header @ (replicate (Suc limit) 97 @ ?rest))
      = Inl FieldLargerThanLimit"
    unfolding csv_reader_run by simp
  then show ?thesis unfolding csv_round_trip_def written by simp
qed

text \<open>
  Claim C9 says that for every list of records the file \<^verbatim>\<open>generate_csv\<close> writes, read
  back, gives the records again. Two lists refute it. \<^verbatim>\<open>csv.reader\<close> refuses a field
  longer than its field size limit, 131072 characters unless the limit has been changed: the
  record whose artist is 131073 times \<^verbatim>\<open>a\<close> is written, and reading the file raises
  \<^verbatim>\<open>field larger than field limit\<close>. And the file, opened with \<^verbatim>\<open>encoding='utf-8'\<close>,
  refuses a surrogate: for the record whose artist is U+D800 \<^verbatim>\<open>generate_csv\<close> raises
  \<^verbatim>\<open>UnicodeEncodeError\<close>.
\<close>

theorem csv_round_trip_refused:
  "csv_round_trip 131072 [(replicate 131073 97, [], [], [], [])]
     = Inl (ReadError FieldLargerThanLimit) \<and>
   csv_round_trip 131072 [([55296], [], [], [], [])] = Inl (WriteError UnicodeEncodeError)"
proof -
  have "Suc 131072 = (131073 :: nat)" by simp
  from csv_round_trip_field_too_long [of 131072, unfolded this]
  have long: "csv_round_trip 131072 [(replicate 131073 97, [], [], [], [])]
     = Inl (ReadError FieldLargerThanLimit)"
    by simp
  have "list_all utf8_encodable (writerow csv_header)"
    unfolding writerow_csv_header by (simp add: ascii_def utf8_encodable_def)
  then have "generate_csv [([55296], [], [], [], [])] = Inl UnicodeEncodeError"
    by (simp add: generate_csv_def file_write_def result_row_def writerow_def csv_field_def
        csv_body_def csv_special_def utf8_encodable_def)
  then have "csv_round_trip 131072 [([55296], [], [], [], [])] = Inl (WriteError UnicodeEncodeError)"
    by (simp add: csv_round_trip_def)
  with long show ?thesis by (intro conjI)
qed

text \<open>
  Claim C9, for the lists the round trip is defined on. For every list of records whose
  fields hold no surrogate and are no longer than the field size limit of the reader (a
  limit of at least 16, the length of the longest header name; 131072 by default):
  \<^verbatim>\<open>generate_csv\<close> returns, the file starts with the header line
  \<^verbatim>\<open>artist,album,album_link,apple_music_link,date\<close> and holds one row for each record in
  the order of the list, and \<^verbatim>\<open>csv.reader\<close>, reading the file opened with
  \<^verbatim>\<open>newline=''\<close>, gives the header row \<^verbatim>\<open>artist\<close>, \<^verbatim>\<open>album\<close>, \<^verbatim>\<open>album_link\<close>,
  \<^verbatim>\<open>apple_music_link\<close>, \<^verbatim>\<open>date\<close> followed by the records, each as its five strings,
  unchanged and in the same order.
\<close>

theorem generate_csv_round_trip:
  "16 \<le> limit \<and>
   (\<forall>(artist, album, album_link, apple_link, date) \<in> set results.
      \<forall>f \<in> set [artist, album, album_link, apple_link, date].
        length f \<le> limit \<and> list_all utf8_encodable f) \<longrightarrow>
   generate_csv results =
     Inr (ascii ''artist,album,album_link,apple_music_link,date'' @ [13, 10] @
          concat (map (\<lambda>(artist, album, album_link, apple_link, date).
                         writerow [artist, album, album_link, apple_link, date]) results)) \<and>
   csv_round_trip limit results =
     Inr ([ascii ''artist'', ascii ''album'', ascii ''album_link'', ascii ''apple_music_link'',
           ascii ''date'']
          # map (\<lambda>(artist, album, album_link, apple_link, date).
                   [artist, album, album_link, apple_link, date]) results)"
proof (intro impI)
  assume a: "16 \<le> limit \<and>
   (\<forall>(artist, album, album_link, apple_link, date) \<in> set results.
      \<forall>f \<in> set [artist, album, album_link, apple_link, date].
        length f \<le> limit \<and> list_all utf8_encodable f)"
  then have encodable:
      "\<forall>row \<in> set (map result_row results). \<forall>f \<in> set row. list_all utf8_encodable f"
    and short: "\<forall>row \<in> set (map result_row results). \<forall>f \<in> set row. length f \<le> limit"
    by (auto simp add: result_row_def)
  from a have "\<forall>f \<in> set csv_header. length f \<le> limit"
    by (simp add: csv_header_def ascii_def)
  with short
  have "\<forall>row \<in> set (csv_header # map result_row results). \<forall>f \<in> set row. length f \<le> limit"
    by simp
  then have read: "csv_reader limit (concat (map writerow (csv_header # map result_row results)))
      = Inr (csv_header # map result_row results)"
    by (rule csv_reader_writerows)
  note written = generate_csv_encodable [OF encodable]
  have content: "generate_csv results =
     Inr (ascii ''artist,album,album_link,apple_music_link,date'' @ [13, 10] @
          concat (map (\<lambda>(artist, album, album_link, apple_link, date).
                         writerow [artist, album, album_link, apple_link, date]) results))"
    unfolding written result_row_fields
    by (simp add: writerow_csv_header comp_def case_prod_unfold)
  have "csv_round_trip limit results = Inr (csv_header # map result_row results)"
    unfolding csv_round_trip_def written sum.case read ..
  then have "csv_round_trip limit results =
     Inr ([ascii ''artist'', ascii ''album'', ascii ''album_link'', ascii ''apple_music_link'',
           ascii ''date'']
          # map (\<lambda>(artist, album, album_link, apple_link, date).
                   [artist, album, album_link, apple_link, date]) results)"
    unfolding csv_header_def result_row_fields .
  with content show "generate_csv results =
     Inr (ascii ''artist,album,album_link,apple_music_link,date'' @ [13, 10] @
          concat (map (\<lambda>(artist, album, album_link, apple_link, date).
                         writerow [artist, album, album_link, apple_link, date]) results)) \<and>
   csv_round_trip limit results =
     Inr ([ascii ''artist'', ascii ''album'', ascii ''album_link'', ascii ''apple_music_link'',
           ascii ''date'']
          # map (\<lambda>(artist, album, album_link, apple_link, date).
                   [artist, album, album_link, apple_link, date]) results)"
    by (rule conjI)
qed

theorem generate_csv_round_trip_witness:
  "(16::nat) \<le> 131072 \<and>
   list_all (\<lambda>f. length f \<le> 131072 \<and> list_all utf8_encodable f)
     [ascii ''Mingus, Charles'', ascii ''Ah \"Um\"'', [], [97, 13, 10, 98], ascii ''2025-11-03''] \<and>
   generate_csv [(ascii ''Mingus, Charles'', ascii ''Ah \"Um\"'', [], [97, 13, 10, 98],
                  ascii ''2025-11-03'')]
     = Inr (ascii ''artist,album,album_link,apple_music_link,date'' @ [13, 10] @
            ascii ''\"Mingus, Charles\",\"Ah \"\"Um\"\"\",,\"a'' @ [13, 10] @
            ascii ''b\",2025-11-03'' @ [13, 10]) \<and>
   csv_round_trip 131072
     [(ascii ''Mingus, Charles'', ascii ''Ah \"Um\"'', [], [97, 13, 10, 98], ascii ''2025-11-03'')]
     = Inr [[ascii ''artist'', ascii ''album'', ascii ''album_link'', ascii ''apple_music_link'',
             ascii ''date''],
            [ascii ''Mingus, Charles'', ascii ''Ah \"Um\"'', [], [97, 13, 10, 98],
             ascii ''2025-11-03'']]"
proof -
  have fields: "list_all (\<lambda>f. length f \<le> 131072 \<and> list_all utf8_encodable f)
     [ascii ''Mingus, Charles'', ascii ''Ah \"Um\"'', [], [97, 13, 10, 98], ascii ''2025-11-03'']"
    by (simp add: ascii_def utf8_encodable_def)
  then have h: "(16::nat) \<le> 131072 \<and>
    (\<forall>(artist, album, album_link, apple_link, date) \<in>
        set [(ascii ''Mingus, Charles'', ascii ''Ah \"Um\"'', [], [97, 13, 10, 98],
              ascii ''2025-11-03'')].
       \<forall>f \<in> set [artist, album, album_link, apple_link, date].
         length f \<le> 131072 \<and> list_all utf8_encodable f)"
    by simp
  note round_trip = generate_csv_round_trip [rule_format, OF h]
  from round_trip [THEN conjunct1]
  have content: "generate_csv [(ascii ''Mingus, Charles'', ascii ''Ah \"Um\"'', [], [97, 13, 10, 98],
                  ascii ''2025-11-03'')]
     = Inr (ascii ''artist,album,album_link,apple_music_link,date'' @ [13, 10] @
            ascii ''\"Mingus, Charles\",\"Ah \"\"Um\"\"\",,\"a'' @ [13, 10] @
            ascii ''b\",2025-11-03'' @ [13, 10])"
    by (simp add: writerow_def csv_field_def csv_body_def csv_special_def ascii_def)
  from round_trip [THEN conjunct2]
  have reread: "csv_round_trip 131072
     [(ascii ''Mingus, Charles'', ascii ''Ah \"Um\"'', [], [97, 13, 10, 98], ascii ''2025-11-03'')]
     = Inr [[ascii ''artist'', ascii ''album'', ascii ''album_link'', ascii ''apple_music_link'',
             ascii ''date''],
            [ascii ''Mingus, Charles'', ascii ''Ah \"Um\"'', [], [97, 13, 10, 98],
             ascii ''2025-11-03'']]"
    by simp
  from fields content reread show ?thesis by simp
qed

section \<open>Further properties\<close>

text \<open>
  The end-to-end example of the specification: the feed of \<open>example_world\<close> gives exactly
  two records in feed order, the first with empty link fields, the second with both link
  fields filled, its universal link without the region segment; the conversion service is
  asked once, after six seconds of sleep.
\<close>

theorem process_feed_end_to_end:
  "process_feed clean_title example_world [] =
     Inr ([(ascii ''Artist A'', ascii ''Album One'', [], [], ascii ''2025-11-03''),
           (ascii ''Artist B'', ascii ''Album Two'', ascii ''https://album.link/i/2'',
            ascii ''https://music.apple.com/us/album/two/2'', ascii ''2025-11-02'')],
          [SearchRequest (ascii ''Artist A Album One''),
           SearchRequest (ascii ''Artist B Album Two''),
           Sleep 6,
           ConvertRequest (ascii ''https://music.apple.com/us/album/two/2'')])"
  by (rule example_run)

text \<open>
  Every call of \<^verbatim>\<open>convert_url_to_album_link\<close> sleeps six seconds and then sends its one
  request, whatever the answer is.
\<close>

theorem convert_sleeps_before_request:
  "snd (convert_url_to_album_link w tr music_url) = tr @ [Sleep 6, ConvertRequest music_url]"
  by (simp add: convert_url_to_album_link_def Let_def
      split: response.splits option.splits)

text \<open>
  A title that has, once cleaned, no colon, no \<^verbatim>\<open>" - "\<close> and, in lower case, no
  \<^verbatim>\<open>" by "\<close> is unparseable for \<^verbatim>\<open>JazzProfilesFetcher.clean_title\<close>.
\<close>

theorem jp_clean_title_no_separator:
  "(let cleaned = py_strip (remove_patterns JP_REMOVE_PATTERNS title)
    in 58 \<notin> set cleaned \<and> \<not> py_in (ascii '' - '') cleaned \<and>
       \<not> py_in (ascii '' by '') (py_lower cleaned) \<longrightarrow>
       jp_clean_title title = None)"
  by (simp add: jp_clean_title_def jp_try_hyphen_def jp_try_by_def Let_def py_in_single)

theorem jp_clean_title_no_separator_witness:
  "58 \<notin> set (py_strip (remove_patterns JP_REMOVE_PATTERNS (ascii ''Remembering Bird''))) \<and>
   \<not> py_in (ascii '' - '') (py_strip (remove_patterns JP_REMOVE_PATTERNS (ascii ''Remembering Bird''))) \<and>
   \<not> py_in (ascii '' by '')
     (py_lower (py_strip (remove_patterns JP_REMOVE_PATTERNS (ascii ''Remembering Bird'')))) \<and>
   jp_clean_title (ascii ''Remembering Bird'') = None"
proof -
  have cleaned: "py_strip (remove_patterns JP_REMOVE_PATTERNS (ascii ''Remembering Bird''))
      = ascii ''Remembering Bird''"
    by (simp add: jp_parser_defs)
  have a: "58 \<notin> set (py_strip (remove_patterns JP_REMOVE_PATTERNS (ascii ''Remembering Bird'')))"
    and b: "\<not> py_in (ascii '' - '')
      (py_strip (remove_patterns JP_REMOVE_PATTERNS (ascii ''Remembering Bird'')))"
    and c: "\<not> py_in (ascii '' by '')
      (py_lower (py_strip (remove_patterns JP_REMOVE_PATTERNS (ascii ''Remembering Bird''))))"
    unfolding cleaned by (simp_all add: ascii_def py_in_def py_lower_def lower_cp_def)
  have "jp_clean_title (ascii ''Remembering Bird'') = None"
    by (rule jp_clean_title_no_separator [unfolded Let_def, rule_format, OF conjI [OF a conjI [OF b c]]])
  with a b c show ?thesis by (intro conjI)
qed

end
